theory Spec2Isabelle
  imports Complex_Main "HOL-Library.AList" "HOL-Library.Sublist"
begin

section \<open>Slot calculation (service/concurrency\_service.go)\<close>

text \<open>
  Go's \<^verbatim>\<open>int\<close> and \<^verbatim>\<open>int64\<close> are 64-bit two's-complement integers on the
  platforms the server is built for. They are modelled by \<^typ>\<open>int\<close>, with the
  wrap-around written out (\<open>int64\<close>) wherever a value computed from an input can leave
  the range: the multiplication and addition of \<^verbatim>\<open>CalculateTotalSlots\<close> and the
  timestamp arithmetic of \<^verbatim>\<open>WaitForRPMSlot\<close>. Everywhere else the values are slot
  indices below the slot total, byte sums of a session hash (at most 255 times its length)
  or counters bounded by a limit, and no operation can overflow. Go's \<^verbatim>\<open>/\<close> truncates
  towards zero (\<open>quo\<close>); where the operands are non-negative it is HOL's \<open>div\<close>, and
  \<^verbatim>\<open>%\<close> is \<open>mod\<close>.
\<close>

definition int64 :: "int \<Rightarrow> int" where
  \<comment> \<open>The value a 64-bit signed integer holds after an operation with exact result \<open>x\<close>.\<close>
  "int64 x = (x + 2 ^ 63) mod 2 ^ 64 - 2 ^ 63"

definition quo :: "int \<Rightarrow> int \<Rightarrow> int" where
  \<comment> \<open>Go's integer division, truncated towards zero.\<close>
  "quo a b = sgn a * sgn b * (\<bar>a\<bar> div \<bar>b\<bar>)"

definition CalculateTotalSlots :: "int \<Rightarrow> int" where
  "CalculateTotalSlots concurrency =
     (if concurrency \<le> 0 then 0 else quo (int64 (int64 (concurrency * 4) + 2)) 3)"

record ModelSlotRange =
  Start :: int
  End :: int

definition CalculateModelSlotRange :: "int \<Rightarrow> ModelSlotRange \<times> ModelSlotRange" where
  "CalculateModelSlotRange totalSlots =
     (if totalSlots \<le> 0 then (\<lparr>Start = 0, End = 0\<rparr>, \<lparr>Start = 0, End = 0\<rparr>)
      else if totalSlots = 1 then (\<lparr>Start = 0, End = 1\<rparr>, \<lparr>Start = 0, End = 1\<rparr>)
      else
        let opusSlots = totalSlots div 2;
            opusSlots = (if opusSlots < 1 then 1 else opusSlots);
            opusSlots = (if opusSlots \<ge> totalSlots then totalSlots - 1 else opusSlots)
        in (\<lparr>Start = 0, End = opusSlots\<rparr>, \<lparr>Start = opusSlots, End = totalSlots\<rparr>))"

section \<open>The key/value store (Redis) as seen by the scripts of repository/identity\_cache.go\<close>

text \<open>
  Every Lua script runs atomically on the store and reads the store's clock with
  \<^verbatim>\<open>TIME\<close>; the model passes that reading as the argument \<open>now\<close> (seconds).
  A key with a time-to-live is a value together with \<open>Some\<close> remaining seconds;
  \<^verbatim>\<open>EXPIRE\<close> with a non-positive timeout deletes the key, as Redis does.
\<close>

subsection \<open>Sorted sets\<close>

text \<open>
  A sorted set is an association list from members to scores. Redis removes a sorted set
  that has become empty, and with it the key's time-to-live; a key created by
  \<^verbatim>\<open>ZADD\<close> has none.
\<close>

record 'm zkey =
  zmembers :: "('m \<times> int) list"
  zttl :: "int option"

definition znorm :: "'m zkey \<Rightarrow> 'm zkey" where
  "znorm k = (if zmembers k = [] then k\<lparr>zttl := None\<rparr> else k)"

definition ZREMRANGEBYSCORE :: "'m zkey \<Rightarrow> int \<Rightarrow> 'm zkey" where
  \<comment> \<open>\<^verbatim>\<open>ZREMRANGEBYSCORE key -inf hi\<close>: drop the members with score \<open>\<le> hi\<close>.\<close>
  "ZREMRANGEBYSCORE k hi = znorm (k\<lparr>zmembers := filter (\<lambda>(m, s). \<not> s \<le> hi) (zmembers k)\<rparr>)"

definition ZSCORE :: "'m zkey \<Rightarrow> 'm \<Rightarrow> int option" where
  "ZSCORE k m = map_of (zmembers k) m"

definition ZADD :: "'m zkey \<Rightarrow> int \<Rightarrow> 'm \<Rightarrow> 'm zkey" where
  "ZADD k s m = (znorm k)\<lparr>zmembers := AList.update m s (zmembers k)\<rparr>"

definition ZCARD :: "'m zkey \<Rightarrow> int" where
  "ZCARD k = int (length (zmembers k))"

definition ZREM :: "'m zkey \<Rightarrow> 'm \<Rightarrow> 'm zkey" where
  "ZREM k m = znorm (k\<lparr>zmembers := AList.delete m (zmembers k)\<rparr>)"

definition EXPIRE :: "'m zkey \<Rightarrow> int \<Rightarrow> 'm zkey" where
  "EXPIRE k t =
     (if zmembers k = [] then znorm k
      else if t \<le> 0 then \<lparr>zmembers = [], zttl = None\<rparr>
      else k\<lparr>zttl := Some t\<rparr>)"

subsection \<open>acquireScript\<close>

text \<open>
  \<^verbatim>\<open>
  local expireBefore = now - ttl
  redis.call('ZREMRANGEBYSCORE', key, '-inf', expireBefore)
  local exists = redis.call('ZSCORE', key, requestID)
  if exists ~= false then
    redis.call('ZADD', key, now, requestID); redis.call('EXPIRE', key, ttl); return 1
  end
  local count = redis.call('ZCARD', key)
  if count < maxConcurrency then
    redis.call('ZADD', key, now, requestID); redis.call('EXPIRE', key, ttl); return 1
  end
  return 0
  \<close>
\<close>

definition acquireScript :: "'m zkey \<Rightarrow> int \<Rightarrow> int \<Rightarrow> int \<Rightarrow> 'm \<Rightarrow> int \<times> 'm zkey" where
  "acquireScript key now maxConcurrency ttl requestID =
     (let expireBefore = now - ttl;
          key = ZREMRANGEBYSCORE key expireBefore;
          exists = ZSCORE key requestID
      in if exists \<noteq> None then (1, EXPIRE (ZADD key now requestID) ttl)
         else
           let count = ZCARD key
           in if count < maxConcurrency then (1, EXPIRE (ZADD key now requestID) ttl)
              else (0, key))"

subsection \<open>Wait counters\<close>

text \<open>
  A wait counter is a string key holding an integer. \<^verbatim>\<open>INCR\<close> and \<^verbatim>\<open>DECR\<close> create an
  absent key at 0 (without time-to-live) before they count, and keep the time-to-live of
  a key that exists.
\<close>

record wkey =
  wval :: int
  wttl :: "int option"

definition GET :: "wkey option \<Rightarrow> int option" where
  "GET key = map_option wval key"

definition INCR :: "wkey option \<Rightarrow> int \<times> wkey option" where
  "INCR key =
     (case key of
        None \<Rightarrow> (1, Some \<lparr>wval = 1, wttl = None\<rparr>)
      | Some k \<Rightarrow> (wval k + 1, Some (k\<lparr>wval := wval k + 1\<rparr>)))"

definition DECR :: "wkey option \<Rightarrow> int \<times> wkey option" where
  "DECR key =
     (case key of
        None \<Rightarrow> (-1, Some \<lparr>wval = -1, wttl = None\<rparr>)
      | Some k \<Rightarrow> (wval k - 1, Some (k\<lparr>wval := wval k - 1\<rparr>)))"

definition EXPIRE_w :: "wkey option \<Rightarrow> int \<Rightarrow> wkey option" where
  "EXPIRE_w key t =
     (case key of
        None \<Rightarrow> None
      | Some k \<Rightarrow> if t \<le> 0 then None else Some (k\<lparr>wttl := Some t\<rparr>))"

definition elapse_w :: "wkey option \<Rightarrow> int \<Rightarrow> wkey option" where
  \<comment> \<open>The store's clock advances by \<open>d\<close> seconds: a key whose time-to-live runs out is gone.\<close>
  "elapse_w key d =
     (case key of
        None \<Rightarrow> None
      | Some k \<Rightarrow>
          (case wttl k of
             None \<Rightarrow> Some k
           | Some t \<Rightarrow> if t \<le> d then None else Some (k\<lparr>wttl := Some (t - d)\<rparr>)))"

text \<open>
  \<^verbatim>\<open>
  local current = redis.call('GET', KEYS[1])
  if current == false then current = 0 else current = tonumber(current) end
  if current >= tonumber(ARGV[1]) then return 0 end
  local newVal = redis.call('INCR', KEYS[1])
  -- Only set TTL on first creation to avoid refreshing zombie data
  if newVal == 1 then redis.call('EXPIRE', KEYS[1], ARGV[2]) end
  return 1
  \<close>
\<close>

definition incrementWaitScript :: "wkey option \<Rightarrow> int \<Rightarrow> int \<Rightarrow> int \<times> wkey option" where
  "incrementWaitScript key maxWait ttl =
     (let current = (case GET key of None \<Rightarrow> 0 | Some v \<Rightarrow> v)
      in if current \<ge> maxWait then (0, key)
         else
           let (newVal, key) = INCR key;
               key = (if newVal = 1 then EXPIRE_w key ttl else key)
           in (1, key))"

text \<open>
  \<^verbatim>\<open>
  local current = redis.call('GET', KEYS[1])
  if current ~= false and tonumber(current) > 0 then redis.call('DECR', KEYS[1]) end
  return 1
  \<close>
\<close>

definition decrementWaitScript :: "wkey option \<Rightarrow> int \<times> wkey option" where
  "decrementWaitScript key =
     (let current = GET key
      in if current \<noteq> None \<and> the current > 0 then (1, snd (DECR key)) else (1, key))"

definition counter_value :: "wkey option \<Rightarrow> int" where
  \<comment> \<open>The value both scripts read: an absent key counts as 0.\<close>
  "counter_value key = (case GET key of None \<Rightarrow> 0 | Some v \<Rightarrow> v)"

definition key_ttl :: "wkey option \<Rightarrow> int option" where
  "key_ttl key = (case key of None \<Rightarrow> None | Some k \<Rightarrow> wttl k)"

subsection \<open>Session mutex\<close>

text \<open>
  The key \<^verbatim>\<open>session_mutex:{accountID}:{sessionHash}\<close> holds the request id of the holder
  and a time-to-live; the mutex store maps the pair (account, session hash) to the key.
\<close>

record mkey =
  holder :: string
  mttl :: int

type_synonym mutex_store = "int \<times> string \<Rightarrow> mkey option"

definition sessionMutexTTLSeconds :: int where
  "sessionMutexTTLSeconds = 300"

definition SET_NX_EX :: "mkey option \<Rightarrow> string \<Rightarrow> int \<Rightarrow> bool \<times> mkey option" where
  \<comment> \<open>\<^verbatim>\<open>SET key value NX EX ttl\<close>: store only if the key does not exist.\<close>
  "SET_NX_EX key v ttl =
     (case key of
        None \<Rightarrow> (True, Some \<lparr>holder = v, mttl = ttl\<rparr>)
      | Some _ \<Rightarrow> (False, key))"

definition acquireSessionMutexScript :: "mkey option \<Rightarrow> int \<Rightarrow> string \<Rightarrow> int \<times> mkey option" where
  "acquireSessionMutexScript key ttl requestID =
     (let (result, key) = SET_NX_EX key requestID ttl
      in if result then (1, key) else (0, key))"

definition releaseSessionMutexScript :: "mkey option \<Rightarrow> string \<Rightarrow> int \<times> mkey option" where
  "releaseSessionMutexScript key requestID =
     (let currentOwner = map_option holder key
      in if currentOwner = Some requestID then (1, None) else (0, key))"

definition AcquireSessionMutex :: "mutex_store \<Rightarrow> int \<Rightarrow> string \<Rightarrow> string \<Rightarrow> bool \<times> mutex_store" where
  "AcquireSessionMutex st accountID sessionHash requestID =
     (let (result, key) =
            acquireSessionMutexScript (st (accountID, sessionHash)) sessionMutexTTLSeconds requestID
      in (result = 1, st((accountID, sessionHash) := key)))"

definition ReleaseSessionMutex :: "mutex_store \<Rightarrow> int \<Rightarrow> string \<Rightarrow> string \<Rightarrow> mutex_store" where
  "ReleaseSessionMutex st accountID sessionHash requestID =
     (let (_, key) = releaseSessionMutexScript (st (accountID, sessionHash)) requestID
      in st((accountID, sessionHash) := key))"

text \<open>
  A run of mutex operations issued by requests, and of keys running out of time. Beside
  the store it keeps the book of who holds what from the callers' side: a request holds
  the mutex of a pair from the moment its acquire returned true until it releases or the
  key's time-to-live runs out.
\<close>

datatype mutex_op =
  MAcquire int string string
| MRelease int string string
| MExpire int string

fun mutex_step :: "mutex_store \<times> (int \<times> string \<Rightarrow> string set) \<Rightarrow> mutex_op
    \<Rightarrow> mutex_store \<times> (int \<times> string \<Rightarrow> string set)" where
  "mutex_step (st, held) (MAcquire a s r) =
     (let (ok, st') = AcquireSessionMutex st a s r
      in (st', if ok then held((a, s) := insert r (held (a, s))) else held))"
| "mutex_step (st, held) (MRelease a s r) =
     (ReleaseSessionMutex st a s r, held((a, s) := held (a, s) - {r}))"
| "mutex_step (st, held) (MExpire a s) = (st((a, s) := None), held((a, s) := {}))"

definition mutex_run :: "mutex_op list \<Rightarrow> mutex_store \<times> (int \<times> string \<Rightarrow> string set)" where
  "mutex_run ops = foldl mutex_step (\<lambda>_. None, \<lambda>_. {}) ops"

text \<open>The book agrees with the store: the holders of a pair are exactly the stored holder.\<close>

definition mutex_inv :: "mutex_store \<times> (int \<times> string \<Rightarrow> string set) \<Rightarrow> bool" where
  "mutex_inv c = (\<forall>p. snd c p = (case fst c p of None \<Rightarrow> {} | Some k \<Rightarrow> {holder k}))"

section \<open>Session-aware slots (repository/identity\_cache.go)\<close>

text \<open>
  The members of the sorted set \<^verbatim>\<open>concurrency:account:{id}\<close> are the strings
  \<^verbatim>\<open>slot_<index>\<close>, written by the slot scripts, and request ids (16 hexadecimal digits),
  written by \<^verbatim>\<open>acquireScript\<close>; no request id has the form \<^verbatim>\<open>slot_<index>\<close>.
\<close>

datatype member = SlotID int | RequestID string

text \<open>
  The hash \<^verbatim>\<open>slot_owner:{accountID}:{slotIndex}\<close>. Its fields \<^verbatim>\<open>owner\<close>, \<^verbatim>\<open>count\<close> and
  \<^verbatim>\<open>expire\<close> are written together by \<^verbatim>\<open>HSET\<close>, and \<^verbatim>\<open>HINCRBY\<close> runs only on a hash whose
  owner was read, so a hash that exists has all three. A script that finds no hash reads
  owner nil, count 0 and expire 0.
\<close>

record owner_hash =
  h_owner :: string
  h_count :: int
  h_expire :: int
  h_ttl :: "int option"

definition EXPIRE_h :: "owner_hash option \<Rightarrow> int \<Rightarrow> owner_hash option" where
  "EXPIRE_h key t =
     (case key of
        None \<Rightarrow> None
      | Some h \<Rightarrow> if t \<le> 0 then None else Some (h\<lparr>h_ttl := Some t\<rparr>))"

text \<open>
  \<^verbatim>\<open>
  local ownerData = redis.call('HGETALL', ownerKey)
  local currentOwner = nil; local currentCount = 0; local expireAt = 0
  ... (read owner, count, expire)
  if expireAt > 0 and expireAt < now then
    redis.call('DEL', ownerKey); redis.call('ZREM', slotKey, slotID)
    currentOwner = nil; currentCount = 0
  end
  if currentOwner == nil or currentCount == 0 then
    local zsetScore = redis.call('ZSCORE', slotKey, slotID)
    if zsetScore ~= false then return 0 end
    redis.call('HSET', ownerKey, 'owner', sessionHash, 'count', 1, 'expire', now + ttl)
    redis.call('EXPIRE', ownerKey, ttl)
    redis.call('ZADD', slotKey, now, slotID); redis.call('EXPIRE', slotKey, ttl)
    return 1
  end
  if currentOwner == sessionHash then
    if currentCount < maxParallel then
      redis.call('HINCRBY', ownerKey, 'count', 1)
      redis.call('HSET', ownerKey, 'expire', now + ttl); redis.call('EXPIRE', ownerKey, ttl)
      redis.call('ZADD', slotKey, now, slotID); redis.call('EXPIRE', slotKey, ttl)
      return 1
    else return 0 end
  end
  return 0
  \<close>
\<close>

definition acquireSlotWithSessionScript ::
  "owner_hash option \<Rightarrow> member zkey \<Rightarrow> int \<Rightarrow> int \<Rightarrow> int \<Rightarrow> string \<Rightarrow> int \<Rightarrow> string
    \<Rightarrow> int \<times> owner_hash option \<times> member zkey" where
  "acquireSlotWithSessionScript ownerKey slotKey now ttl slotIndex sessionHash maxParallel requestID =
     (let slotID = SlotID slotIndex;
          currentOwner = map_option h_owner ownerKey;
          currentCount = (case ownerKey of None \<Rightarrow> 0 | Some h \<Rightarrow> h_count h);
          expireAt = (case ownerKey of None \<Rightarrow> 0 | Some h \<Rightarrow> h_expire h);
          expired = (expireAt > 0 \<and> expireAt < now);
          ownerKey = (if expired then None else ownerKey);
          slotKey = (if expired then ZREM slotKey slotID else slotKey);
          currentOwner = (if expired then None else currentOwner);
          currentCount = (if expired then 0 else currentCount)
      in if currentOwner = None \<or> currentCount = 0 then
           (if ZSCORE slotKey slotID \<noteq> None then (0, ownerKey, slotKey)
            else
              (1,
               EXPIRE_h (Some \<lparr>h_owner = sessionHash, h_count = 1, h_expire = now + ttl,
                               h_ttl = (case ownerKey of None \<Rightarrow> None | Some h \<Rightarrow> h_ttl h)\<rparr>) ttl,
               EXPIRE (ZADD slotKey now slotID) ttl))
         else if currentOwner = Some sessionHash then
           (if currentCount < maxParallel then
              (1,
               EXPIRE_h (map_option (\<lambda>h. h\<lparr>h_count := h_count h + 1, h_expire := now + ttl\<rparr>)
                           ownerKey) ttl,
               EXPIRE (ZADD slotKey now slotID) ttl)
            else (0, ownerKey, slotKey))
         else (0, ownerKey, slotKey))"

text \<open>
  The store of the slot scheduler: the sorted set of each account, the owner hash of each
  (account, slot), and the binding \<^verbatim>\<open>session_slot:{accountID}:{sessionHash}\<close> of each
  (account, session hash).
\<close>

record store =
  slotKeys :: "int \<Rightarrow> member zkey"
  ownerKeys :: "int \<times> int \<Rightarrow> owner_hash option"
  sessionSlots :: "int \<times> string \<Rightarrow> int option"

definition emptyStore :: store where
  "emptyStore = \<lparr>slotKeys = (\<lambda>_. \<lparr>zmembers = [], zttl = None\<rparr>), ownerKeys = (\<lambda>_. None),
                  sessionSlots = (\<lambda>_. None)\<rparr>"

record concurrencyCache =
  slotTTLSeconds :: int
  waitQueueTTLSeconds :: int

definition defaultSlotTTLMinutes :: int where
  "defaultSlotTTLMinutes = 15"

definition NewConcurrencyCache :: "int \<Rightarrow> int \<Rightarrow> concurrencyCache" where
  "NewConcurrencyCache slotTTLMinutes waitQueueTTL =
     (let slotTTLMinutes = (if slotTTLMinutes \<le> 0 then defaultSlotTTLMinutes else slotTTLMinutes);
          waitQueueTTL = (if waitQueueTTL \<le> 0 then slotTTLMinutes * 60 else waitQueueTTL)
      in \<lparr>slotTTLSeconds = slotTTLMinutes * 60, waitQueueTTLSeconds = waitQueueTTL\<rparr>)"

definition haikuMaxParallel :: int where
  "haikuMaxParallel = 3"

definition runAcquireSlotWithSessionScript ::
  "concurrencyCache \<Rightarrow> int \<Rightarrow> store \<Rightarrow> int \<Rightarrow> int \<Rightarrow> string \<Rightarrow> int \<Rightarrow> string \<Rightarrow> bool \<times> store" where
  \<comment> \<open>\<^verbatim>\<open>acquireSlotWithSessionScript.Run(ctx, c.rdb, []string{ownerKey, slotKey},
      c.slotTTLSeconds, slotIndex, sessionHash, maxParallel, requestID)\<close> and \<^verbatim>\<open>result == 1\<close>.\<close>
  "runAcquireSlotWithSessionScript c now st accountID slotIndex sessionHash maxParallel requestID =
     (let (result, ownerKey, slotKey) =
            acquireSlotWithSessionScript (ownerKeys st (accountID, slotIndex)) (slotKeys st accountID)
              now (slotTTLSeconds c) slotIndex sessionHash maxParallel requestID
      in (result = 1,
          st\<lparr>ownerKeys := (ownerKeys st)((accountID, slotIndex) := ownerKey),
             slotKeys := (slotKeys st)(accountID := slotKey)\<rparr>))"

definition AcquireSlotWithSession ::
  "concurrencyCache \<Rightarrow> int \<Rightarrow> store \<Rightarrow> int \<Rightarrow> int \<Rightarrow> string \<Rightarrow> string \<Rightarrow> bool \<times> store" where
  \<comment> \<open>The method of identity\_cache.go: it passes the constant \<^verbatim>\<open>haikuMaxParallel\<close>.\<close>
  "AcquireSlotWithSession c now st accountID slotIndex sessionHash requestID =
     runAcquireSlotWithSessionScript c now st accountID slotIndex sessionHash haikuMaxParallel requestID"

text \<open>
  \<open>n\<close> requests of one session for one slot, one after the other and without a release in
  between: the results of the \<open>n\<close> runs of the script, and the keys after them.
\<close>

fun sameSessionBurst ::
  "nat \<Rightarrow> owner_hash option \<Rightarrow> member zkey \<Rightarrow> int \<Rightarrow> int \<Rightarrow> int \<Rightarrow> string \<Rightarrow> int \<Rightarrow> string
    \<Rightarrow> int list \<times> owner_hash option \<times> member zkey" where
  "sameSessionBurst 0 ownerKey slotKey now ttl slotIndex sessionHash maxParallel requestID =
     ([], ownerKey, slotKey)"
| "sameSessionBurst (Suc n) ownerKey slotKey now ttl slotIndex sessionHash maxParallel requestID =
     (let (r, ownerKey', slotKey') =
            acquireSlotWithSessionScript ownerKey slotKey now ttl slotIndex sessionHash
              maxParallel requestID;
          (rs, ownerKey'', slotKey'') =
            sameSessionBurst n ownerKey' slotKey' now ttl slotIndex sessionHash maxParallel requestID
      in (r # rs, ownerKey'', slotKey''))"

section \<open>The session scheduler (service/concurrency\_service.go)\<close>

datatype error = CacheError | AcquireBoundSlotFailed error | AcquireTargetSlotFailed error

text \<open>
  The methods of the interface \<^verbatim>\<open>ConcurrencyCache\<close> that \<^verbatim>\<open>AcquireSessionSlot\<close> calls, over
  any state \<open>'st\<close> of the cache. Each takes the state and returns it changed; a method
  whose error the service only logs or drops returns the state alone.
\<close>

record 'st ConcurrencyCache =
  iGetSessionSlot :: "'st \<Rightarrow> int \<Rightarrow> string \<Rightarrow> error + int"
  iAcquireSlotWithSession ::
    "'st \<Rightarrow> int \<Rightarrow> int \<Rightarrow> string \<Rightarrow> int \<Rightarrow> string \<Rightarrow> string \<Rightarrow> (error + bool) \<times> 'st"
  iSetSessionSlot :: "'st \<Rightarrow> int \<Rightarrow> string \<Rightarrow> int \<Rightarrow> 'st"
  iRefreshSessionSlotTTL :: "'st \<Rightarrow> int \<Rightarrow> string \<Rightarrow> 'st"

definition hashToSlotIndex :: "string \<Rightarrow> int \<Rightarrow> int" where
  "hashToSlotIndex sessionHash maxConcurrency =
     (if maxConcurrency \<le> 0 then 0
      else
        let sum = foldl (\<lambda>sum b. sum + of_char b) 0 sessionHash
        in sum mod maxConcurrency)"

datatype release = NilRelease | NopRelease | ReleaseSlotWithSession int int string string

record SessionSlotResult =
  Acquired :: bool
  SlotIndex :: int
  ReleaseFunc :: release

definition slotRange :: "int \<Rightarrow> string \<Rightarrow> int \<times> int" where
  \<comment> \<open>The \<^verbatim>\<open>switch modelCategory\<close> of \<^verbatim>\<open>AcquireSessionSlot\<close>: \<open>(rangeStart, rangeEnd)\<close>.\<close>
  "slotRange totalSlots modelCategory =
     (if modelCategory = ''opus'' then
        (let (opusRange, _) = CalculateModelSlotRange totalSlots
         in (Start opusRange, End opusRange))
      else if modelCategory = ''sonnet'' then
        (let (_, sonnetRange) = CalculateModelSlotRange totalSlots
         in (Start sonnetRange, End sonnetRange))
      else (0, totalSlots))"

definition maxParallelFor :: "string \<Rightarrow> int" where
  \<comment> \<open>The computation of \<^verbatim>\<open>maxParallel\<close> in \<^verbatim>\<open>AcquireSessionSlot\<close>.\<close>
  "maxParallelFor modelCategory =
     (if modelCategory = ''haiku'' \<or> modelCategory = '''' then 9999 else 1)"

text \<open>
  Step 5 of \<^verbatim>\<open>AcquireSessionSlot\<close>:
  \<^verbatim>\<open>
  for offset := 1; offset < rangeSize; offset++ {
    fallbackSlotInRange := (targetSlotInRange + offset) % rangeSize
    fallbackSlot := rangeStart + fallbackSlotInRange
    acquired, err := s.cache.AcquireSlotWithSession(ctx, accountID, fallbackSlot, sessionHash,
                       maxParallel, requestID, modelCategory)
    if err != nil { continue }
    if acquired { SetSessionSlot(...fallbackSlot); return {true, fallbackSlot, release} }
  }
  \<close>
  The result is \<open>None\<close> when the loop ends without a slot.
\<close>

function fallbackLoop ::
  "'st ConcurrencyCache \<Rightarrow> int \<Rightarrow> string \<Rightarrow> string \<Rightarrow> int \<Rightarrow> string \<Rightarrow> int \<Rightarrow> int \<Rightarrow> int
    \<Rightarrow> int \<Rightarrow> 'st \<Rightarrow> SessionSlotResult option \<times> 'st" where
  "fallbackLoop cache accountID sessionHash modelCategory maxParallel requestID rangeStart rangeSize
       targetSlotInRange offset st =
     (if offset < rangeSize then
        let fallbackSlotInRange = (targetSlotInRange + offset) mod rangeSize;
            fallbackSlot = rangeStart + fallbackSlotInRange;
            (res, st') = iAcquireSlotWithSession cache st accountID fallbackSlot sessionHash
                           maxParallel requestID modelCategory
        in case res of
             Inl err \<Rightarrow>
               fallbackLoop cache accountID sessionHash modelCategory maxParallel requestID
                 rangeStart rangeSize targetSlotInRange (offset + 1) st'
           | Inr acquired \<Rightarrow>
               if acquired then
                 (Some \<lparr>Acquired = True, SlotIndex = fallbackSlot,
                        ReleaseFunc = ReleaseSlotWithSession accountID fallbackSlot sessionHash
                                        modelCategory\<rparr>,
                  iSetSessionSlot cache st' accountID sessionHash fallbackSlot)
               else
                 fallbackLoop cache accountID sessionHash modelCategory maxParallel requestID
                   rangeStart rangeSize targetSlotInRange (offset + 1) st'
      else (None, st))"
  by pat_completeness auto
termination
  by (relation "measure (\<lambda>(cache, accountID, sessionHash, modelCategory, maxParallel, requestID,
        rangeStart, rangeSize, targetSlotInRange, offset, st). nat (rangeSize - offset))") auto

declare fallbackLoop.simps [simp del]

definition selectNewSlot ::
  "'st ConcurrencyCache \<Rightarrow> int \<Rightarrow> string \<Rightarrow> string \<Rightarrow> int \<Rightarrow> string \<Rightarrow> int \<Rightarrow> int \<Rightarrow> 'st
    \<Rightarrow> (error + SessionSlotResult) \<times> 'st" where
  \<comment> \<open>Steps 3 to 6 of \<^verbatim>\<open>AcquireSessionSlot\<close>: the target slot, the fallback scan, "all full".\<close>
  "selectNewSlot cache accountID sessionHash modelCategory maxParallel requestID rangeStart rangeSize st =
     (let targetSlotInRange = hashToSlotIndex sessionHash rangeSize;
          targetSlot = rangeStart + targetSlotInRange;
          (res, st') = iAcquireSlotWithSession cache st accountID targetSlot sessionHash
                         maxParallel requestID modelCategory
      in case res of
           Inl err \<Rightarrow> (Inl (AcquireTargetSlotFailed err), st')
         | Inr acquired \<Rightarrow>
             if acquired then
               (Inr \<lparr>Acquired = True, SlotIndex = targetSlot,
                     ReleaseFunc = ReleaseSlotWithSession accountID targetSlot sessionHash
                                     modelCategory\<rparr>,
                iSetSessionSlot cache st' accountID sessionHash targetSlot)
             else
               (case fallbackLoop cache accountID sessionHash modelCategory maxParallel requestID
                       rangeStart rangeSize targetSlotInRange 1 st' of
                  (Some r, st'') \<Rightarrow> (Inr r, st'')
                | (None, st'') \<Rightarrow>
                    (Inr \<lparr>Acquired = False, SlotIndex = targetSlot, ReleaseFunc = NilRelease\<rparr>,
                     st'')))"

definition AcquireSessionSlot ::
  "'st ConcurrencyCache option \<Rightarrow> 'st \<Rightarrow> int \<Rightarrow> int \<Rightarrow> string \<Rightarrow> string \<Rightarrow> string
    \<Rightarrow> (error + SessionSlotResult) \<times> 'st" where
  "AcquireSessionSlot cache st accountID maxConcurrency sessionHash modelCategory requestID =
     (case cache of
        None \<Rightarrow> (Inr \<lparr>Acquired = True, SlotIndex = -1, ReleaseFunc = NopRelease\<rparr>, st)
      | Some cache \<Rightarrow>
          if maxConcurrency \<le> 0 then
            (Inr \<lparr>Acquired = True, SlotIndex = -1, ReleaseFunc = NopRelease\<rparr>, st)
          else
            let totalSlots = CalculateTotalSlots maxConcurrency;
                (rangeStart, rangeEnd) = slotRange totalSlots modelCategory;
                rangeSize = rangeEnd - rangeStart
            in if rangeSize \<le> 0 then
                 (Inr \<lparr>Acquired = False, SlotIndex = -1, ReleaseFunc = NilRelease\<rparr>, st)
               else
                 let maxParallel = maxParallelFor modelCategory;
                     boundSlot = (case iGetSessionSlot cache st accountID sessionHash of
                                    Inl err \<Rightarrow> -1
                                  | Inr slot \<Rightarrow> slot)
                 in if boundSlot \<ge> 0 \<and> boundSlot \<ge> rangeStart \<and> boundSlot < rangeEnd then
                      (let (res, st') = iAcquireSlotWithSession cache st accountID boundSlot
                                          sessionHash maxParallel requestID modelCategory
                       in case res of
                            Inl err \<Rightarrow> (Inl (AcquireBoundSlotFailed err), st')
                          | Inr acquired \<Rightarrow>
                              if acquired then
                                (Inr \<lparr>Acquired = True, SlotIndex = boundSlot,
                                      ReleaseFunc = ReleaseSlotWithSession accountID boundSlot
                                                      sessionHash modelCategory\<rparr>,
                                 iRefreshSessionSlotTTL cache st' accountID sessionHash)
                              else
                                selectNewSlot cache accountID sessionHash modelCategory maxParallel
                                  requestID rangeStart rangeSize st')
                    else
                      selectNewSlot cache accountID sessionHash modelCategory maxParallel
                        requestID rangeStart rangeSize st)"

text \<open>
  Modelled from the spec: the methods \<^verbatim>\<open>GetSessionSlot\<close>, \<^verbatim>\<open>SetSessionSlot\<close> and
  \<^verbatim>\<open>RefreshSessionSlotTTL\<close> of the cache, and the method \<^verbatim>\<open>AcquireSlotWithSession\<close> with the
  parameters \<^verbatim>\<open>maxParallel\<close> and \<^verbatim>\<open>modelCategory\<close> that the service calls, are not among the
  sources. The spec has: "Session-to-slot binding (per account, per sessionHash): a single
  integer slot index with TTL" (the service's comment: -1 means no binding), and
  "acquireSlotWithSession(ownerKey, slotKey, ttl, slot, session, maxParallel, memberID,
  modelCategory)" with the steps of the script above. The script of the sources takes
  \<^verbatim>\<open>maxParallel\<close> as its fourth argument and has no argument for the category, so the
  category is passed and not used. \<open>now\<close> is the reading of the store's clock during the call.
\<close>

definition redisCache :: "concurrencyCache \<Rightarrow> int \<Rightarrow> store ConcurrencyCache" where
  "redisCache c now =
     \<lparr>iGetSessionSlot = (\<lambda>st accountID sessionHash.
          Inr (case sessionSlots st (accountID, sessionHash) of None \<Rightarrow> -1 | Some slot \<Rightarrow> slot)),
      iAcquireSlotWithSession = (\<lambda>st accountID slotIndex sessionHash maxParallel requestID modelCategory.
          let (acquired, st') = runAcquireSlotWithSessionScript c now st accountID slotIndex
                                   sessionHash maxParallel requestID
          in (Inr acquired, st')),
      iSetSessionSlot = (\<lambda>st accountID sessionHash slotIndex.
          st\<lparr>sessionSlots := (sessionSlots st)((accountID, sessionHash) \<mapsto> slotIndex)\<rparr>),
      iRefreshSessionSlotTTL = (\<lambda>st accountID sessionHash. st)\<rparr>"

text \<open>
  A cache that behaves as \<open>cache\<close> and also writes down, in order, the slot index and
  the \<^verbatim>\<open>maxParallel\<close> of every call of \<^verbatim>\<open>AcquireSlotWithSession\<close>.
\<close>

definition traced :: "'st ConcurrencyCache \<Rightarrow> ('st \<times> (int \<times> int) list) ConcurrencyCache" where
  "traced cache =
     \<lparr>iGetSessionSlot = (\<lambda>(st, log). iGetSessionSlot cache st),
      iAcquireSlotWithSession = (\<lambda>(st, log) accountID slotIndex sessionHash maxParallel requestID modelCategory.
          let (res, st') = iAcquireSlotWithSession cache st accountID slotIndex sessionHash
                             maxParallel requestID modelCategory
          in (res, (st', log @ [(slotIndex, maxParallel)]))),
      iSetSessionSlot = (\<lambda>(st, log) accountID sessionHash slotIndex.
          (iSetSessionSlot cache st accountID sessionHash slotIndex, log)),
      iRefreshSessionSlotTTL = (\<lambda>(st, log) accountID sessionHash.
          (iRefreshSessionSlotTTL cache st accountID sessionHash, log))\<rparr>"

text \<open>
  A slot is occupied at time \<open>now\<close> when its owner hash has not expired and counts at
  least one holder, or when no holder is counted and the slot is a member of the account's
  sorted set (a slot taken through another script).
\<close>

definition slotOccupied :: "store \<Rightarrow> int \<Rightarrow> int \<Rightarrow> int \<Rightarrow> bool" where
  "slotOccupied st now accountID slotIndex =
     (case ownerKeys st (accountID, slotIndex) of
        None \<Rightarrow> ZSCORE (slotKeys st accountID) (SlotID slotIndex) \<noteq> None
      | Some h \<Rightarrow>
          \<not> (h_expire h > 0 \<and> h_expire h < now) \<and>
          (h_count h > 0 \<or>
           h_count h = 0 \<and> ZSCORE (slotKeys st accountID) (SlotID slotIndex) \<noteq> None))"

text \<open>
  The requests of one session for one account and category, one after the other and none
  released in between; each has its own request id.
\<close>

fun sessionBurst ::
  "'st ConcurrencyCache \<Rightarrow> 'st \<Rightarrow> int \<Rightarrow> int \<Rightarrow> string \<Rightarrow> string \<Rightarrow> string list
    \<Rightarrow> (error + SessionSlotResult) list \<times> 'st" where
  "sessionBurst cache st accountID maxConcurrency sessionHash modelCategory [] = ([], st)"
| "sessionBurst cache st accountID maxConcurrency sessionHash modelCategory (requestID # requestIDs) =
     (let (r, st') = AcquireSessionSlot (Some cache) st accountID maxConcurrency sessionHash
                       modelCategory requestID;
          (rs, st'') = sessionBurst cache st' accountID maxConcurrency sessionHash modelCategory
                         requestIDs
      in (r # rs, st''))"

text \<open>
  The owner of a slot at time \<open>now\<close> and the number of its holders, as the script reads them
  from an owner hash that has not expired and counts at least one holder.
\<close>

definition slotOwner :: "store \<Rightarrow> int \<Rightarrow> int \<Rightarrow> int \<Rightarrow> (string \<times> int) option" where
  "slotOwner st now accountID slotIndex =
     (case ownerKeys st (accountID, slotIndex) of
        None \<Rightarrow> None
      | Some h \<Rightarrow>
          if (h_expire h > 0 \<and> h_expire h < now) \<or> h_count h \<le> 0 then None
          else Some (h_owner h, h_count h))"

section \<open>Model categories (handler)\<close>






section \<open>RPM wait (handler: ConcurrencyHelper.WaitForRPMSlot)\<close>

text \<open>
  The function decides whether the request sleeps and for how long; the sleep itself
  (\<^verbatim>\<open>waitWithPing\<close>) is the returned \<open>WaitWithPing\<close> with its duration in
  milliseconds. The arguments are what the function reads: whether the concurrency service
  is nil, the account's \<^verbatim>\<open>maxRPM\<close>, the results of \<^verbatim>\<open>GetAccountRPM\<close> and
  \<^verbatim>\<open>GetAccountOldestRequestTime\<close>, and \<^verbatim>\<open>time.Now().UnixMilli()\<close>. The two
  timestamps are \<^verbatim>\<open>int64\<close> milliseconds.
\<close>

definition defaultAccountMaxRPM :: int where
  "defaultAccountMaxRPM = 4"

definition rpmWindowSeconds :: int where
  "rpmWindowSeconds = 60"

datatype rpm_wait = ReturnNil | WaitWithPing int

definition WaitForRPMSlot :: "bool \<Rightarrow> int \<Rightarrow> error + int \<Rightarrow> error + int \<Rightarrow> int \<Rightarrow> rpm_wait" where
  "WaitForRPMSlot serviceNil maxRPM getAccountRPM getOldest nowMs =
     (if serviceNil then ReturnNil
      else
        let effectiveMaxRPM = (if maxRPM \<le> 0 then defaultAccountMaxRPM else maxRPM)
        in case getAccountRPM of
             Inl err \<Rightarrow> ReturnNil
           | Inr currentRPM \<Rightarrow>
               if currentRPM < effectiveMaxRPM then ReturnNil
               else
                 (case getOldest of
                    Inl err \<Rightarrow> WaitWithPing 5000
                  | Inr oldestTime \<Rightarrow>
                      if oldestTime = 0 then WaitWithPing 5000
                      else
                        let expireMs = int64 (oldestTime + rpmWindowSeconds * 1000);
                            waitMs = int64 (expireMs - nowMs)
                        in if waitMs \<le> 0 then ReturnNil
                           else
                             let waitMs = (if waitMs > rpmWindowSeconds * 1000
                                           then rpmWindowSeconds * 1000 else waitMs)
                             in WaitWithPing waitMs))"

section \<open>Failover loop (handler: GatewayHandler.Messages)\<close>

text \<open>
  One iteration of the loop selects an account for the current set of failed accounts,
  runs the steps up to the forwarder and looks at the forwarder's error. The selector
  (\<^verbatim>\<open>SelectAccountWithLoadAwareness\<close>) and everything between selection and the
  forwarder's result are parameters: \<open>select\<close> maps the failed set to the selection;
  \<open>attempt\<close> maps the switch count, the account and the flag \<^verbatim>\<open>streamStarted\<close> to
  \<open>EarlyExit\<close> (a step before the forwarder ended the request with the given response) or
  to the forwarder's outcome, together with the new value of the flag (a streaming request
  that waits for the session mutex, a slot or the RPM window is sent pings, and the first
  ping sets the flag). A forwarder error that is no failover error has been answered by
  the forwarder (\<open>HandledByForwarder\<close>).

  The handler's own errors go through \<^verbatim>\<open>handleStreamingAwareError\<close>: once the stream has
  started the error is written as an SSE event that carries the error type and the
  message and no status, provided the writer is an \<^verbatim>\<open>http.Flusher\<close> (\<open>flusher\<close>; gin's
  writer is one), and nothing is written otherwise; before that it is a JSON response
  with the status. The JSON of the event is made of two strings and always marshals.

  The result carries the response and the final values of \<^verbatim>\<open>switchCount\<close> and
  \<^verbatim>\<open>failedAccountIDs\<close>, and, for the statements about selection, the accounts selected by
  the iterations in their order (\<open>tried\<close>).
\<close>

datatype select_outcome = Selected int | ErrClaudeCodeOnly | SelectError string
datatype forward_outcome = Forwarded | UpstreamFailoverError int | OtherError
datatype response =
    Served int
  | ErrorResponse int string string
  | SSEErrorEvent string string
  | NothingWritten
  | HandledByForwarder
datatype attempt_outcome = EarlyExit response | Forward forward_outcome

record loop_result =
  resp :: response
  switches :: int
  failedSet :: "int set"
  tried :: "int list"

definition mapUpstreamError :: "int \<Rightarrow> int \<times> string \<times> string" where
  "mapUpstreamError statusCode =
     (if statusCode = 401 then
        (502, ''upstream_error'', ''Upstream authentication failed, please contact administrator'')
      else if statusCode = 403 then
        (502, ''upstream_error'', ''Upstream access forbidden, please contact administrator'')
      else if statusCode = 429 then
        (429, ''rate_limit_error'', ''Upstream rate limit exceeded, please retry later'')
      else if statusCode = 529 then
        (503, ''overloaded_error'', ''Upstream service overloaded, please retry later'')
      else if statusCode \<in> {500, 502, 503, 504} then
        (502, ''upstream_error'', ''Upstream service temporarily unavailable'')
      else (502, ''upstream_error'', ''Upstream request failed''))"

definition errorResponse :: "int \<Rightarrow> string \<Rightarrow> string \<Rightarrow> response" where
  "errorResponse status errType message = ErrorResponse status errType message"

definition handleStreamingAwareError ::
  "bool \<Rightarrow> int \<Rightarrow> string \<Rightarrow> string \<Rightarrow> bool \<Rightarrow> response" where
  "handleStreamingAwareError flusher status errType message streamStarted =
     (if streamStarted then
        (if flusher then SSEErrorEvent errType message else NothingWritten)
      else errorResponse status errType message)"

definition handleFailoverExhausted :: "bool \<Rightarrow> int \<Rightarrow> bool \<Rightarrow> response" where
  "handleFailoverExhausted flusher statusCode streamStarted =
     (let (status, errType, errMsg) = mapUpstreamError statusCode
      in handleStreamingAwareError flusher status errType errMsg streamStarted)"

function failoverLoop ::
  "bool \<Rightarrow> (int set \<Rightarrow> select_outcome) \<Rightarrow> (int \<Rightarrow> int \<Rightarrow> bool \<Rightarrow> attempt_outcome \<times> bool)
    \<Rightarrow> int \<Rightarrow> int \<Rightarrow> int set \<Rightarrow> int \<Rightarrow> bool \<Rightarrow> loop_result" where
  "failoverLoop flusher select attempt maxAccountSwitches switchCount failedAccountIDs
       lastFailoverStatus streamStarted =
     (case select failedAccountIDs of
        ErrClaudeCodeOnly \<Rightarrow>
          \<lparr>resp = handleStreamingAwareError flusher 403 ''access_denied''
             ''This group only allows Claude Code clients. Please use the official Claude Code CLI.''
             streamStarted,
           switches = switchCount, failedSet = failedAccountIDs, tried = []\<rparr>
      | SelectError err \<Rightarrow>
          \<lparr>resp = (if failedAccountIDs = {}
                   then handleStreamingAwareError flusher 503 ''api_error''
                          (''No available accounts: '' @ err) streamStarted
                   else handleFailoverExhausted flusher lastFailoverStatus streamStarted),
           switches = switchCount, failedSet = failedAccountIDs, tried = []\<rparr>
      | Selected account \<Rightarrow>
          (let (outcome, streamStarted) = attempt switchCount account streamStarted
           in case outcome of
                EarlyExit r \<Rightarrow>
                  \<lparr>resp = r, switches = switchCount, failedSet = failedAccountIDs,
                   tried = [account]\<rparr>
              | Forward Forwarded \<Rightarrow>
                  \<lparr>resp = Served account, switches = switchCount,
                   failedSet = failedAccountIDs, tried = [account]\<rparr>
              | Forward OtherError \<Rightarrow>
                  \<lparr>resp = HandledByForwarder, switches = switchCount,
                   failedSet = failedAccountIDs, tried = [account]\<rparr>
              | Forward (UpstreamFailoverError statusCode) \<Rightarrow>
                  (let failedAccountIDs = insert account failedAccountIDs;
                       lastFailoverStatus = statusCode
                   in if switchCount \<ge> maxAccountSwitches then
                        \<lparr>resp = handleFailoverExhausted flusher lastFailoverStatus streamStarted,
                         switches = switchCount, failedSet = failedAccountIDs,
                         tried = [account]\<rparr>
                      else
                        (let r = failoverLoop flusher select attempt maxAccountSwitches (switchCount + 1)
                                   failedAccountIDs lastFailoverStatus streamStarted
                         in r\<lparr>tried := account # tried r\<rparr>))))"
  by pat_completeness auto
termination
  by (relation "measure (\<lambda>(flusher, select, attempt, m, sw, failed, last, ss). nat (m - sw))") auto

declare failoverLoop.simps [simp del]

record gateway_config =
  MaxAccountSwitches :: int
  MaxAccountSwitchesGemini :: int

definition PlatformGemini :: string where
  "PlatformGemini = ''gemini''"

definition switchBudget :: "int \<times> int \<Rightarrow> string \<Rightarrow> int" where
  \<comment> \<open>\<^verbatim>\<open>Messages\<close>: the Gemini branch runs its loop with \<^verbatim>\<open>h.maxAccountSwitchesGemini\<close>,
      every other platform with \<^verbatim>\<open>h.maxAccountSwitches\<close>.\<close>
  "switchBudget h platform = (if platform = PlatformGemini then snd h else fst h)"

definition NewGatewayHandler :: "gateway_config option \<Rightarrow> int \<times> int" where
  "NewGatewayHandler cfg =
     (let maxAccountSwitches = 10;
          maxAccountSwitchesGemini = 3
      in case cfg of
           None \<Rightarrow> (maxAccountSwitches, maxAccountSwitchesGemini)
         | Some c \<Rightarrow>
             (if MaxAccountSwitches c > 0 then MaxAccountSwitches c else maxAccountSwitches,
              if MaxAccountSwitchesGemini c > 0 then MaxAccountSwitchesGemini c
              else maxAccountSwitchesGemini))"

text \<open>
  Modelled from the spec: the selector \<^verbatim>\<open>SelectAccountWithLoadAwareness\<close> is not among the
  sources. The spec has, for the account selector: "Pull all accounts in the group, filter
  to those that are schedulable for the requested model and not in \<^verbatim>\<open>failedAccountIDs\<close>."
  A selector does so when it never returns an account of the set it is given.
\<close>

definition excludesFailed :: "(int set \<Rightarrow> select_outcome) \<Rightarrow> bool" where
  "excludesFailed select = (\<forall>failedAccountIDs account.
     select failedAccountIDs = Selected account \<longrightarrow> account \<notin> failedAccountIDs)"

section \<open>Auxiliary facts\<close>

subsection \<open>Sorted sets\<close>

lemma map_of_filter_snd:
  "distinct (map fst xs) \<Longrightarrow>
   map_of (filter (\<lambda>(m, s). P s) xs) k =
     (case map_of xs k of None \<Rightarrow> None | Some s \<Rightarrow> if P s then Some s else None)"
  by (induction xs) (auto split: option.splits simp: rev_image_eqI)

lemma distinct_fst_filter: "distinct (map fst xs) \<Longrightarrow> distinct (map fst (filter P xs))"
  by (simp add: distinct_map_filter)

lemma keys_card_length: "distinct (map fst xs) \<Longrightarrow> card (fst ` set xs) = length xs"
  by (metis distinct_card length_map set_map)

lemma map_of_keys: "(map_of xs k \<noteq> None) = (k \<in> fst ` set xs)"
  by (simp add: map_of_eq_None_iff)

subsection \<open>Wait counters\<close>

lemma incrementWait_succeeds_iff:
  "fst (incrementWaitScript key maxWait ttl) = 1 \<longleftrightarrow> counter_value key < maxWait"
  by (simp add: incrementWaitScript_def counter_value_def Let_def split_def)

lemma incrementWait_refused:
  "\<not> counter_value key < maxWait \<Longrightarrow> incrementWaitScript key maxWait ttl = (0, key)"
  by (simp add: incrementWaitScript_def counter_value_def Let_def)

lemma incrementWait_value:
  "counter_value key < maxWait \<Longrightarrow> 0 < ttl \<Longrightarrow>
   counter_value (snd (incrementWaitScript key maxWait ttl)) = counter_value key + 1"
  by (auto simp: incrementWaitScript_def counter_value_def Let_def split_def GET_def INCR_def
      EXPIRE_w_def split: option.splits)

lemma incrementWait_ttl:
  "counter_value key < maxWait \<Longrightarrow> 0 < ttl \<Longrightarrow>
   key_ttl (snd (incrementWaitScript key maxWait ttl)) =
     (if counter_value key = 0 then Some ttl else key_ttl key)"
  by (auto simp: incrementWaitScript_def counter_value_def key_ttl_def Let_def split_def GET_def
      INCR_def EXPIRE_w_def split: option.splits)

lemma decrementWait_value:
  "counter_value (snd (decrementWaitScript key)) =
     (if 0 < counter_value key then counter_value key - 1 else counter_value key)"
  by (auto simp: decrementWaitScript_def counter_value_def Let_def GET_def DECR_def
      split: option.splits)

lemma decrementWait_unchanged:
  "counter_value key \<le> 0 \<Longrightarrow> decrementWaitScript key = (1, key)"
  by (auto simp: decrementWaitScript_def counter_value_def Let_def GET_def split: option.splits)

lemma decrementWait_ttl: "key_ttl (snd (decrementWaitScript key)) = key_ttl key"
  by (auto simp: decrementWaitScript_def key_ttl_def Let_def GET_def DECR_def split: option.splits)

lemma wait_round_trip:
  "counter_value key < maxWait \<Longrightarrow> 0 \<le> counter_value key \<Longrightarrow> 0 < ttl \<Longrightarrow>
   counter_value (snd (decrementWaitScript (snd (incrementWaitScript key maxWait ttl)))) =
     counter_value key"
  by (simp add: decrementWait_value incrementWait_value)

subsection \<open>Session mutex\<close>

lemma AcquireSessionMutex_iff:
  "fst (AcquireSessionMutex st a s r) \<longleftrightarrow> st (a, s) = None"
  by (simp add: AcquireSessionMutex_def acquireSessionMutexScript_def SET_NX_EX_def Let_def
      split: option.splits)

lemma AcquireSessionMutex_store:
  "snd (AcquireSessionMutex st a s r) =
     (if st (a, s) = None then st((a, s) \<mapsto> \<lparr>holder = r, mttl = 300\<rparr>) else st)"
  by (auto simp: AcquireSessionMutex_def acquireSessionMutexScript_def SET_NX_EX_def Let_def
      sessionMutexTTLSeconds_def split: option.splits)

lemma ReleaseSessionMutex_store:
  "ReleaseSessionMutex st a s r =
     (if map_option holder (st (a, s)) = Some r then st((a, s) := None) else st)"
  by (auto simp: ReleaseSessionMutex_def releaseSessionMutexScript_def Let_def)

lemma mutex_step_inv: "mutex_inv c \<Longrightarrow> mutex_inv (mutex_step c x)"
proof (cases c)
  case (Pair st held)
  assume inv: "mutex_inv c"
  show ?thesis
  proof (cases x)
    case (MAcquire a s r)
    with Pair inv show ?thesis
      by (auto simp: mutex_inv_def split_def Let_def AcquireSessionMutex_iff
          AcquireSessionMutex_store split: option.splits)
  next
    case (MRelease a s r)
    with Pair inv show ?thesis
      by (auto simp: mutex_inv_def ReleaseSessionMutex_store split: option.splits)
  next
    case (MExpire a s)
    with Pair inv show ?thesis
      by (auto simp: mutex_inv_def)
  qed
qed

lemma mutex_foldl_inv: "mutex_inv c \<Longrightarrow> mutex_inv (foldl mutex_step c ops)"
  by (induction ops arbitrary: c) (simp_all add: mutex_step_inv)

lemma mutex_run_inv: "mutex_inv (mutex_run ops)"
  unfolding mutex_run_def by (rule mutex_foldl_inv) (simp add: mutex_inv_def)

subsection \<open>Failover loop\<close>

lemma failoverLoop_retry:
  assumes "sel failed = Selected acc"
    and "att sw acc ss = (Forward (UpstreamFailoverError st), ss')" and "sw < m"
  shows "failoverLoop fl sel att m sw failed lst ss =
         (failoverLoop fl sel att m (sw + 1) (insert acc failed) st ss')
           \<lparr>tried := acc # tried (failoverLoop fl sel att m (sw + 1) (insert acc failed) st ss')\<rparr>"
  using assms by (subst failoverLoop.simps) (simp add: Let_def)

lemma failoverLoop_exhausted:
  assumes "sel failed = Selected acc"
    and "att sw acc ss = (Forward (UpstreamFailoverError st), ss')" and "m \<le> sw"
  shows "failoverLoop fl sel att m sw failed lst ss =
         \<lparr>resp = handleFailoverExhausted fl st ss', switches = sw, failedSet = insert acc failed,
          tried = [acc]\<rparr>"
  using assms by (subst failoverLoop.simps) (simp add: Let_def)

lemma failoverLoop_terminal:
  assumes "sel failed = Selected acc" and "att sw acc ss = (Forward OtherError, ss')"
  shows "failoverLoop fl sel att m sw failed lst ss =
         \<lparr>resp = HandledByForwarder, switches = sw, failedSet = failed, tried = [acc]\<rparr>"
  using assms by (subst failoverLoop.simps) simp

lemma failoverLoop_no_retry:
  assumes "\<not> (\<exists>acc st. sel failed = Selected acc \<and>
                fst (att sw acc ss) = Forward (UpstreamFailoverError st) \<and> sw < m)"
  shows "switches (failoverLoop fl sel att m sw failed lst ss) = sw \<and>
         failed \<subseteq> failedSet (failoverLoop fl sel att m sw failed lst ss) \<and>
         failedSet (failoverLoop fl sel att m sw failed lst ss) \<subseteq>
           failed \<union> set (tried (failoverLoop fl sel att m sw failed lst ss)) \<and>
         length (tried (failoverLoop fl sel att m sw failed lst ss)) \<le> 1 \<and>
         (\<forall>a \<in> set (tried (failoverLoop fl sel att m sw failed lst ss)). sel failed = Selected a)"
  using assms
  by (subst (1 2 3 4 5 6) failoverLoop.simps)
     (auto simp: Let_def split_def split: select_outcome.splits attempt_outcome.splits
        forward_outcome.splits)

lemma failoverLoop_inv:
  "switches (failoverLoop fl sel att m sw failed lst ss) \<le> max sw m \<and>
   sw \<le> switches (failoverLoop fl sel att m sw failed lst ss) \<and>
   failed \<subseteq> failedSet (failoverLoop fl sel att m sw failed lst ss) \<and>
   failedSet (failoverLoop fl sel att m sw failed lst ss) \<subseteq>
     failed \<union> set (tried (failoverLoop fl sel att m sw failed lst ss)) \<and>
   int (length (tried (failoverLoop fl sel att m sw failed lst ss))) \<le> max 0 (m - sw) + 1 \<and>
   (excludesFailed sel \<longrightarrow>
      distinct (tried (failoverLoop fl sel att m sw failed lst ss)) \<and>
      set (tried (failoverLoop fl sel att m sw failed lst ss)) \<inter> failed = {})"
proof (induction "nat (m - sw)" arbitrary: sw failed lst ss)
  case 0
  then have no: "\<not> (\<exists>acc st. sel failed = Selected acc \<and>
                fst (att sw acc ss) = Forward (UpstreamFailoverError st) \<and> sw < m)"
    by simp
  let ?r = "failoverLoop fl sel att m sw failed lst ss"
  from no failoverLoop_no_retry [of sel failed att sw ss m fl lst]
  have a: "switches ?r = sw" "failed \<subseteq> failedSet ?r" "failedSet ?r \<subseteq> failed \<union> set (tried ?r)"
    "length (tried ?r) \<le> 1" "\<forall>a \<in> set (tried ?r). sel failed = Selected a"
    by blast+
  from a(4) have d: "distinct (tried ?r)"
    by (cases "tried ?r") (auto simp: Suc_le_eq)
  from a(5) have "excludesFailed sel \<longrightarrow> set (tried ?r) \<inter> failed = {}"
    by (auto simp: excludesFailed_def)
  with a d show ?case by auto
next
  case (Suc n)
  let ?r = "failoverLoop fl sel att m sw failed lst ss"
  show ?case
  proof (cases "\<exists>acc st. sel failed = Selected acc \<and>
                fst (att sw acc ss) = Forward (UpstreamFailoverError st) \<and> sw < m")
    case False
    from False failoverLoop_no_retry [of sel failed att sw ss m fl lst]
    have a: "switches ?r = sw" "failed \<subseteq> failedSet ?r" "failedSet ?r \<subseteq> failed \<union> set (tried ?r)"
      "length (tried ?r) \<le> 1" "\<forall>a \<in> set (tried ?r). sel failed = Selected a"
      by blast+
    from a(4) have d: "distinct (tried ?r)"
      by (cases "tried ?r") (auto simp: Suc_le_eq)
    from a(5) have "excludesFailed sel \<longrightarrow> set (tried ?r) \<inter> failed = {}"
      by (auto simp: excludesFailed_def)
    with a d show ?thesis by auto
  next
    case True
    then obtain acc st where sel: "sel failed = Selected acc"
      and att: "fst (att sw acc ss) = Forward (UpstreamFailoverError st)" and lt: "sw < m"
      by blast
    obtain ss' where att': "att sw acc ss = (Forward (UpstreamFailoverError st), ss')"
      using att by (cases "att sw acc ss") simp
    let ?r' = "failoverLoop fl sel att m (sw + 1) (insert acc failed) st ss'"
    have eq: "?r = ?r'\<lparr>tried := acc # tried ?r'\<rparr>"
      using sel att' lt by (rule failoverLoop_retry)
    have "n = nat (m - (sw + 1))" using Suc.hyps(2) by simp
    then have ih:
      "switches ?r' \<le> max (sw + 1) m \<and> sw + 1 \<le> switches ?r' \<and>
       insert acc failed \<subseteq> failedSet ?r' \<and>
       failedSet ?r' \<subseteq> insert acc failed \<union> set (tried ?r') \<and>
       int (length (tried ?r')) \<le> max 0 (m - (sw + 1)) + 1 \<and>
       (excludesFailed sel \<longrightarrow> distinct (tried ?r') \<and> set (tried ?r') \<inter> insert acc failed = {})"
      by (rule Suc.hyps(1))
    have ex: "excludesFailed sel \<longrightarrow> acc \<notin> failed"
      using sel by (auto simp: excludesFailed_def)
    from ih ex lt show ?thesis unfolding eq by auto
  qed
qed

lemma failoverLoop_all_fail:
  assumes sel: "\<And>F. \<exists>a. sel F = Selected a"
    and att: "\<And>k a s. att k a s = (Forward (UpstreamFailoverError (stat k)), s)"
  shows "sw \<le> m \<Longrightarrow>
         resp (failoverLoop fl sel att m sw failed lst ss) = handleFailoverExhausted fl (stat m) ss \<and>
         switches (failoverLoop fl sel att m sw failed lst ss) = m"
proof (induction "nat (m - sw)" arbitrary: sw failed lst)
  case 0
  then have "sw = m" by simp
  obtain a where a: "sel failed = Selected a" using sel by blast
  show ?case
    using failoverLoop_exhausted [of sel failed a att sw ss "stat sw" ss m fl lst] a att [of sw a ss]
      \<open>sw = m\<close> by simp
next
  case (Suc n)
  then have lt: "sw < m" by simp
  obtain a where a: "sel failed = Selected a" using sel by blast
  have "n = nat (m - (sw + 1))" using Suc.hyps(2) by simp
  moreover have "sw + 1 \<le> m" using lt by simp
  ultimately have
    "resp (failoverLoop fl sel att m (sw + 1) (insert a failed) (stat sw) ss) =
        handleFailoverExhausted fl (stat m) ss \<and>
     switches (failoverLoop fl sel att m (sw + 1) (insert a failed) (stat sw) ss) = m"
    by (rule Suc.hyps(1))
  then show ?case
    using failoverLoop_retry [of sel failed a att sw ss "stat sw" ss m fl lst] a att [of sw a ss] lt
    by simp
qed

subsection \<open>Session scheduler over any cache\<close>

lemma hashToSlotIndex_sum:
  "hashToSlotIndex sessionHash n =
     (if n \<le> 0 then 0 else (\<Sum>b\<leftarrow>sessionHash. of_char b) mod n)"
proof -
  have "foldl (\<lambda>sum b. sum + of_char b) a xs = a + (\<Sum>b\<leftarrow>xs. (of_char b :: int))"
    for a :: int and xs :: string
    by (induction xs arbitrary: a) simp_all
  then show ?thesis by (simp add: hashToSlotIndex_def)
qed

lemma hashToSlotIndex_range: "0 < n \<Longrightarrow> 0 \<le> hashToSlotIndex s n \<and> hashToSlotIndex s n < n"
  by (simp add: hashToSlotIndex_sum)

lemma int64_id: "- (2 ^ 63) \<le> x \<Longrightarrow> x < 2 ^ 63 \<Longrightarrow> int64 x = x"
  by (simp add: int64_def)

lemma quo_nonneg: "0 \<le> a \<Longrightarrow> 0 < b \<Longrightarrow> quo a b = a div b"
  by (cases "a = 0") (simp_all add: quo_def)

lemma CalculateTotalSlots_exact:
  assumes "0 < C" and "C < 2 ^ 61"
  shows "CalculateTotalSlots C = (C * 4 + 2) div 3"
proof -
  have "int64 (C * 4) = C * 4" using assms by (intro int64_id) simp_all
  moreover have "int64 (C * 4 + 2) = C * 4 + 2" using assms by (intro int64_id) simp_all
  ultimately show ?thesis using assms by (simp add: CalculateTotalSlots_def quo_nonneg)
qed

lemma CalculateTotalSlots_ge2: "0 < C \<Longrightarrow> C < 2 ^ 61 \<Longrightarrow> 2 \<le> CalculateTotalSlots C"
  by (simp add: CalculateTotalSlots_exact)

lemma slotRange_start: "slotRange T cat = (rs, re) \<Longrightarrow> 0 \<le> rs"
  by (auto simp: slotRange_def CalculateModelSlotRange_def Let_def split: if_splits)

lemma slotRange_opus:
  "slotRange T ''opus'' = (Start (fst (CalculateModelSlotRange T)), End (fst (CalculateModelSlotRange T)))"
  by (simp add: slotRange_def split_def Let_def)

lemma slotRange_sonnet:
  "slotRange T ''sonnet'' = (Start (snd (CalculateModelSlotRange T)), End (snd (CalculateModelSlotRange T)))"
  by (simp add: slotRange_def split_def Let_def)

lemma slotRange_bounds:
  "2 \<le> T \<Longrightarrow> slotRange T cat = (rs, re) \<Longrightarrow> 0 \<le> rs \<and> rs < re \<and> re \<le> T"
  by (auto simp: slotRange_def CalculateModelSlotRange_def Let_def split: if_splits)

lemma mod_slot_in_range:
  "0 < sz \<Longrightarrow> rs \<le> rs + (t + offset) mod sz \<and> rs + (t + offset) mod sz < rs + (sz::int)"
  by simp

lemma fallbackLoop_result:
  "fallbackLoop cache a s cat mp rid rs sz t offset st = (Some r, st') \<Longrightarrow>
   Acquired r \<and> (\<exists>k. offset \<le> k \<and> k < sz \<and> SlotIndex r = rs + (t + k) mod sz)"
proof (induction cache a s cat mp rid rs sz t offset st rule: fallbackLoop.induct)
  case (1 cache a s cat mp rid rs sz t offset st)
  show ?case
  proof (cases "offset < sz")
    case False
    with "1.prems" show ?thesis by (simp add: fallbackLoop.simps)
  next
    case True
    obtain res st1 where call:
      "iAcquireSlotWithSession cache st a (rs + (t + offset) mod sz) s mp rid cat = (res, st1)"
      by (cases "iAcquireSlotWithSession cache st a (rs + (t + offset) mod sz) s mp rid cat")
    show ?thesis
    proof (cases "res = Inr True")
      case True
      with "1.prems" \<open>offset < sz\<close> call show ?thesis
        by (subst (asm) fallbackLoop.simps) (auto simp: Let_def)
    next
      case False
      then have next_call:
        "fallbackLoop cache a s cat mp rid rs sz t (offset + 1) st1 = (Some r, st')"
        using "1.prems" \<open>offset < sz\<close> call
        by (subst (asm) fallbackLoop.simps) (auto simp: Let_def split: sum.splits if_splits)
      have "Acquired r \<and> (\<exists>k. offset + 1 \<le> k \<and> k < sz \<and> SlotIndex r = rs + (t + k) mod sz)"
      proof (cases res)
        case (Inl e)
        from "1.IH"(1) [OF \<open>offset < sz\<close> refl refl refl call [symmetric] Inl next_call]
        show ?thesis .
      next
        case (Inr b)
        with False have "\<not> b" by simp
        from "1.IH"(2) [OF \<open>offset < sz\<close> refl refl refl call [symmetric] Inr this next_call]
        show ?thesis .
      qed
      then obtain k where "offset + 1 \<le> k" "k < sz" "SlotIndex r = rs + (t + k) mod sz"
        and acq: "Acquired r" by blast
      then have "offset \<le> k \<and> k < sz \<and> SlotIndex r = rs + (t + k) mod sz" by simp
      with acq show ?thesis by blast
    qed
  qed
qed

lemma traced_acquire:
  "iAcquireSlotWithSession (traced cache) stl a slot s mp rid cat =
     (fst (iAcquireSlotWithSession cache (fst stl) a slot s mp rid cat),
      (snd (iAcquireSlotWithSession cache (fst stl) a slot s mp rid cat), snd stl @ [(slot, mp)]))"
  by (simp add: traced_def split_def Let_def)

lemma traced_set: "snd (iSetSessionSlot (traced cache) stl a s i) = snd stl"
  by (simp add: traced_def split_def)

lemma traced_refresh: "snd (iRefreshSessionSlotTTL (traced cache) stl a s) = snd stl"
  by (simp add: traced_def split_def)

lemma traced_get: "iGetSessionSlot (traced cache) stl a s = iGetSessionSlot cache (fst stl) a s"
  by (simp add: traced_def split_def)

lemma fallbackLoop_trace:
  "fallbackLoop (traced cache) a s cat mp rid rs sz t offset stl = (res, stl') \<Longrightarrow>
   \<exists>ext. snd stl' = snd stl @ ext \<and>
     (\<forall>p \<in> set ext. snd p = mp \<and> (\<exists>k. offset \<le> k \<and> k < sz \<and> fst p = rs + (t + k) mod sz))"
proof (induction "traced cache" a s cat mp rid rs sz t offset stl rule: fallbackLoop.induct)
  case (1 a s cat mp rid rs sz t offset stl)
  show ?case
  proof (cases "offset < sz")
    case False
    with "1.prems" show ?thesis by (simp add: fallbackLoop.simps)
  next
    case True
    let ?slot = "rs + (t + offset) mod sz"
    obtain r1 stl1 where call:
      "iAcquireSlotWithSession (traced cache) stl a ?slot s mp rid cat = (r1, stl1)"
      by (cases "iAcquireSlotWithSession (traced cache) stl a ?slot s mp rid cat")
    have log1: "snd stl1 = snd stl @ [(?slot, mp)]"
      using call by (auto simp: traced_acquire)
    show ?thesis
    proof (cases "r1 = Inr True")
      case True
      then have "stl' = iSetSessionSlot (traced cache) stl1 a s ?slot"
        using "1.prems" \<open>offset < sz\<close> call
        by (subst (asm) fallbackLoop.simps) (auto simp: Let_def)
      then have "snd stl' = snd stl @ [(?slot, mp)]"
        by (simp add: traced_set log1)
      moreover have "\<exists>k. offset \<le> k \<and> k < sz \<and> ?slot = rs + (t + k) mod sz"
        using \<open>offset < sz\<close> by blast
      ultimately show ?thesis by auto
    next
      case False
      then have next_call:
        "fallbackLoop (traced cache) a s cat mp rid rs sz t (offset + 1) stl1 = (res, stl')"
        using "1.prems" \<open>offset < sz\<close> call
        by (subst (asm) fallbackLoop.simps) (auto simp: Let_def split: sum.splits if_splits)
      have "\<exists>ext. snd stl' = snd stl1 @ ext \<and>
          (\<forall>p \<in> set ext. snd p = mp \<and>
             (\<exists>k. offset + 1 \<le> k \<and> k < sz \<and> fst p = rs + (t + k) mod sz))"
      proof (cases r1)
        case (Inl e)
        from "1.hyps"(1) [OF \<open>offset < sz\<close> refl refl refl call [symmetric] Inl next_call]
        show ?thesis .
      next
        case (Inr b)
        with False have "\<not> b" by simp
        from "1.hyps"(2) [OF \<open>offset < sz\<close> refl refl refl call [symmetric] Inr this next_call]
        show ?thesis .
      qed
      then obtain ext where ext: "snd stl' = snd stl1 @ ext"
        and all: "\<forall>p \<in> set ext. snd p = mp \<and>
             (\<exists>k. offset + 1 \<le> k \<and> k < sz \<and> fst p = rs + (t + k) mod sz)"
        by blast
      have "snd stl' = snd stl @ ((?slot, mp) # ext)" using ext log1 by simp
      moreover have "\<forall>p \<in> set ((?slot, mp) # ext). snd p = mp \<and>
             (\<exists>k. offset \<le> k \<and> k < sz \<and> fst p = rs + (t + k) mod sz)"
      proof
        fix p assume "p \<in> set ((?slot, mp) # ext)"
        then consider "p = (?slot, mp)" | "p \<in> set ext" by auto
        then show "snd p = mp \<and> (\<exists>k. offset \<le> k \<and> k < sz \<and> fst p = rs + (t + k) mod sz)"
        proof cases
          case 1
          then show ?thesis using \<open>offset < sz\<close> by auto
        next
          case 2
          with all obtain k where "snd p = mp" "offset + 1 \<le> k" "k < sz"
            "fst p = rs + (t + k) mod sz" by blast
          then have "snd p = mp \<and> offset \<le> k \<and> k < sz \<and> fst p = rs + (t + k) mod sz" by simp
          then show ?thesis by blast
        qed
      qed
      ultimately show ?thesis by blast
    qed
  qed
qed

lemma target_as_offset:
  "0 < sz \<Longrightarrow> rs + hashToSlotIndex s sz = rs + (hashToSlotIndex s sz + 0) mod sz"
  using hashToSlotIndex_range [of sz s] by simp

lemma selectNewSlot_result:
  assumes "selectNewSlot cache a s cat mp rid rs sz st = (Inr r, st')" and "0 < sz"
  shows "(Acquired r \<longrightarrow>
            (\<exists>k. 0 \<le> k \<and> k < sz \<and> SlotIndex r = rs + (hashToSlotIndex s sz + k) mod sz)) \<and>
         (\<not> Acquired r \<longrightarrow> SlotIndex r = rs + hashToSlotIndex s sz \<and> ReleaseFunc r = NilRelease)"
proof -
  let ?t = "hashToSlotIndex s sz"
  obtain r1 st1 where call:
    "iAcquireSlotWithSession cache st a (rs + ?t) s mp rid cat = (r1, st1)"
    by (cases "iAcquireSlotWithSession cache st a (rs + ?t) s mp rid cat")
  show ?thesis
  proof (cases "r1 = Inr True")
    case True
    with assms call have "Acquired r \<and> SlotIndex r = rs + ?t"
      by (auto simp: selectNewSlot_def Let_def)
    then show ?thesis using target_as_offset [OF assms(2), of rs s] assms(2) by auto
  next
    case False
    obtain fr st2 where fb: "fallbackLoop cache a s cat mp rid rs sz ?t 1 st1 = (fr, st2)"
      by (cases "fallbackLoop cache a s cat mp rid rs sz ?t 1 st1")
    from False assms call fb have r1: "r1 = Inr False"
      by (auto simp: selectNewSlot_def Let_def split: sum.splits if_splits)
    show ?thesis
    proof (cases fr)
      case None
      with assms call fb r1 have "\<not> Acquired r \<and> SlotIndex r = rs + ?t \<and> ReleaseFunc r = NilRelease"
        by (auto simp: selectNewSlot_def Let_def)
      then show ?thesis by simp
    next
      case (Some r')
      with assms call fb r1 have "r = r'"
        by (auto simp: selectNewSlot_def Let_def)
      with fallbackLoop_result [of cache a s cat mp rid rs sz ?t 1 st1 r st2] fb Some
      obtain k where "Acquired r" "1 \<le> k" "k < sz" "SlotIndex r = rs + (?t + k) mod sz"
        by auto
      then have "Acquired r \<and> 0 \<le> k \<and> k < sz \<and> SlotIndex r = rs + (?t + k) mod sz" by simp
      then show ?thesis by blast
    qed
  qed
qed

lemma selectNewSlot_trace:
  assumes "selectNewSlot (traced cache) a s cat mp rid rs sz stl = (res, stl')" and "0 < sz"
  shows "\<exists>ext. snd stl' = snd stl @ (rs + hashToSlotIndex s sz, mp) # ext \<and>
           (\<forall>p \<in> set ext. snd p = mp \<and>
              (\<exists>k. 1 \<le> k \<and> k < sz \<and> fst p = rs + (hashToSlotIndex s sz + k) mod sz))"
proof -
  let ?t = "hashToSlotIndex s sz"
  obtain r1 stl1 where call:
    "iAcquireSlotWithSession (traced cache) stl a (rs + ?t) s mp rid cat = (r1, stl1)"
    by (cases "iAcquireSlotWithSession (traced cache) stl a (rs + ?t) s mp rid cat")
  have log1: "snd stl1 = snd stl @ [(rs + ?t, mp)]"
    using call by (auto simp: traced_acquire)
  show ?thesis
  proof (cases "r1 = Inr True")
    case True
    with assms call have "stl' = iSetSessionSlot (traced cache) stl1 a s (rs + ?t)"
      by (auto simp: selectNewSlot_def Let_def)
    then have "snd stl' = snd stl @ (rs + ?t, mp) # []" by (simp add: traced_set log1)
    then show ?thesis by (metis empty_iff list.set(1))
  next
    case False
    obtain fr stl2 where fb:
      "fallbackLoop (traced cache) a s cat mp rid rs sz ?t 1 stl1 = (fr, stl2)"
      by (cases "fallbackLoop (traced cache) a s cat mp rid rs sz ?t 1 stl1")
    show ?thesis
    proof (cases "\<exists>e. r1 = Inl e")
      case True
      with assms call have "stl' = stl1" by (auto simp: selectNewSlot_def Let_def)
      then have "snd stl' = snd stl @ (rs + ?t, mp) # []" by (simp add: log1)
      then show ?thesis by (metis empty_iff list.set(1))
    next
      case noerr: False
      with False have r1: "r1 = Inr False" by (cases r1) auto
      with assms call fb have "stl' = stl2"
        by (auto simp: selectNewSlot_def Let_def split: option.splits)
      moreover from fallbackLoop_trace [OF fb] obtain ext where
        "snd stl2 = snd stl1 @ ext"
        "\<forall>p \<in> set ext. snd p = mp \<and> (\<exists>k. 1 \<le> k \<and> k < sz \<and> fst p = rs + (?t + k) mod sz)"
        by blast
      ultimately have "snd stl' = snd stl @ (rs + ?t, mp) # ext \<and>
          (\<forall>p \<in> set ext. snd p = mp \<and> (\<exists>k. 1 \<le> k \<and> k < sz \<and> fst p = rs + (?t + k) mod sz))"
        using log1 by simp
      then show ?thesis by blast
    qed
  qed
qed

lemma AcquireSessionSlot_unfold:
  assumes "0 < C" and "slotRange (CalculateTotalSlots C) cat = (rs, re)" and "rs < re"
  shows "rs < re \<and> 0 \<le> rs \<and>
    AcquireSessionSlot (Some cache) st a C s cat rid =
     (let boundSlot = (case iGetSessionSlot cache st a s of Inl err \<Rightarrow> -1 | Inr slot \<Rightarrow> slot)
      in if rs \<le> boundSlot \<and> boundSlot < re then
           (case iAcquireSlotWithSession cache st a boundSlot s (maxParallelFor cat) rid cat of
              (Inl err, st') \<Rightarrow> (Inl (AcquireBoundSlotFailed err), st')
            | (Inr True, st') \<Rightarrow>
                (Inr \<lparr>Acquired = True, SlotIndex = boundSlot,
                      ReleaseFunc = ReleaseSlotWithSession a boundSlot s cat\<rparr>,
                 iRefreshSessionSlotTTL cache st' a s)
            | (Inr False, st') \<Rightarrow>
                selectNewSlot cache a s cat (maxParallelFor cat) rid rs (re - rs) st')
         else selectNewSlot cache a s cat (maxParallelFor cat) rid rs (re - rs) st)"
proof -
  have b: "0 \<le> rs \<and> rs < re"
    using slotRange_start [OF assms(2)] assms(3) by simp
  then have "\<not> re - rs \<le> 0" by simp
  moreover have "\<not> C \<le> 0" using assms(1) by simp
  moreover have "\<And>b. (0 \<le> b \<and> rs \<le> b \<and> b < re) = (rs \<le> b \<and> b < re)" using b by auto
  ultimately show ?thesis
    using b by (auto simp: AcquireSessionSlot_def assms(2) Let_def split: sum.splits bool.splits prod.splits)
qed

lemma AcquireSessionSlot_empty:
  assumes "0 < C" and "slotRange (CalculateTotalSlots C) cat = (rs, re)" and "re \<le> rs"
  shows "AcquireSessionSlot (Some cache) st a C s cat rid =
         (Inr \<lparr>Acquired = False, SlotIndex = -1, ReleaseFunc = NilRelease\<rparr>, st)"
  using assms by (simp add: AcquireSessionSlot_def Let_def)

lemma AcquireSessionSlot_result:
  assumes run: "AcquireSessionSlot (Some cache) st a C s cat rid = (Inr r, st')"
    and C: "0 < C" and rng: "slotRange (CalculateTotalSlots C) cat = (rs, re)"
    and lt0: "rs < re"
  shows "(Acquired r \<longrightarrow> rs \<le> SlotIndex r \<and> SlotIndex r < re) \<and>
         (\<not> Acquired r \<longrightarrow> SlotIndex r = rs + hashToSlotIndex s (re - rs))"
proof -
  from AcquireSessionSlot_unfold [OF C rng lt0, of cache st a s rid]
  have lt: "rs < re" and unf: "AcquireSessionSlot (Some cache) st a C s cat rid =
     (let boundSlot = (case iGetSessionSlot cache st a s of Inl err \<Rightarrow> -1 | Inr slot \<Rightarrow> slot)
      in if rs \<le> boundSlot \<and> boundSlot < re then
           (case iAcquireSlotWithSession cache st a boundSlot s (maxParallelFor cat) rid cat of
              (Inl err, st') \<Rightarrow> (Inl (AcquireBoundSlotFailed err), st')
            | (Inr True, st') \<Rightarrow>
                (Inr \<lparr>Acquired = True, SlotIndex = boundSlot,
                      ReleaseFunc = ReleaseSlotWithSession a boundSlot s cat\<rparr>,
                 iRefreshSessionSlotTTL cache st' a s)
            | (Inr False, st') \<Rightarrow>
                selectNewSlot cache a s cat (maxParallelFor cat) rid rs (re - rs) st')
         else selectNewSlot cache a s cat (maxParallelFor cat) rid rs (re - rs) st)"
    by blast+
  have sz: "0 < re - rs" using lt by simp
  have sel: "selectNewSlot cache a s cat (maxParallelFor cat) rid rs (re - rs) st1 = (Inr r, st') \<Longrightarrow>
      (Acquired r \<longrightarrow> rs \<le> SlotIndex r \<and> SlotIndex r < re) \<and>
      (\<not> Acquired r \<longrightarrow> SlotIndex r = rs + hashToSlotIndex s (re - rs))" for st1
  proof -
    assume a: "selectNewSlot cache a s cat (maxParallelFor cat) rid rs (re - rs) st1 = (Inr r, st')"
    from selectNewSlot_result [OF a sz]
    have 1: "Acquired r \<longrightarrow>
            (\<exists>k. 0 \<le> k \<and> k < re - rs \<and> SlotIndex r = rs + (hashToSlotIndex s (re - rs) + k) mod (re - rs))"
      and 2: "\<not> Acquired r \<longrightarrow> SlotIndex r = rs + hashToSlotIndex s (re - rs)"
      by blast+
    have "Acquired r \<longrightarrow> rs \<le> SlotIndex r \<and> SlotIndex r < re"
    proof
      assume "Acquired r"
      with 1 obtain k where "SlotIndex r = rs + (hashToSlotIndex s (re - rs) + k) mod (re - rs)"
        by blast
      then show "rs \<le> SlotIndex r \<and> SlotIndex r < re"
        using mod_slot_in_range [OF sz, of rs "hashToSlotIndex s (re - rs)" k] by simp
    qed
    with 2 show ?thesis by blast
  qed
  from run unf show ?thesis
    by (auto simp: Let_def split: if_splits prod.splits sum.splits bool.splits dest: sel)
qed

lemma AcquireSessionSlot_trace:
  assumes run: "AcquireSessionSlot (Some (traced cache)) (st, []) a C s cat rid = (res, stl')"
    and C: "0 < C" and rng: "slotRange (CalculateTotalSlots C) cat = (rs, re)"
    and lt0: "rs < re"
  shows "\<forall>p \<in> set (snd stl'). snd p = maxParallelFor cat \<and> rs \<le> fst p \<and> fst p < re \<and>
           (iGetSessionSlot cache st a s = Inr (fst p) \<or>
            (\<exists>k. 0 \<le> k \<and> k < re - rs \<and>
                 fst p = rs + (hashToSlotIndex s (re - rs) + k) mod (re - rs)))"
    and "\<not> (\<exists>b. iGetSessionSlot cache st a s = Inr b \<and> rs \<le> b \<and> b < re) \<longrightarrow>
         (\<exists>ext. snd stl' = (rs + hashToSlotIndex s (re - rs), maxParallelFor cat) # ext)"
proof -
  let ?mp = "maxParallelFor cat" and ?sz = "re - rs" and ?t = "hashToSlotIndex s (re - rs)"
  define good where "good = (\<lambda>p::int \<times> int. snd p = ?mp \<and> rs \<le> fst p \<and> fst p < re \<and>
           (iGetSessionSlot cache st a s = Inr (fst p) \<or>
            (\<exists>k. 0 \<le> k \<and> k < ?sz \<and> fst p = rs + (?t + k) mod ?sz)))"
  from AcquireSessionSlot_unfold [OF C rng lt0, of "traced cache" "(st, [])" a s rid]
  have lt: "rs < re" and rs0: "0 \<le> rs"
    and unf: "AcquireSessionSlot (Some (traced cache)) (st, []) a C s cat rid =
     (let boundSlot = (case iGetSessionSlot (traced cache) (st, []) a s of Inl err \<Rightarrow> -1 | Inr slot \<Rightarrow> slot)
      in if rs \<le> boundSlot \<and> boundSlot < re then
           (case iAcquireSlotWithSession (traced cache) (st, []) a boundSlot s ?mp rid cat of
              (Inl err, st') \<Rightarrow> (Inl (AcquireBoundSlotFailed err), st')
            | (Inr True, st') \<Rightarrow>
                (Inr \<lparr>Acquired = True, SlotIndex = boundSlot,
                      ReleaseFunc = ReleaseSlotWithSession a boundSlot s cat\<rparr>,
                 iRefreshSessionSlotTTL (traced cache) st' a s)
            | (Inr False, st') \<Rightarrow> selectNewSlot (traced cache) a s cat ?mp rid rs ?sz st')
         else selectNewSlot (traced cache) a s cat ?mp rid rs ?sz (st, []))"
    by blast+
  have sz: "0 < ?sz" using lt by simp
  have sel: "\<exists>ext. snd stl2 = snd stl1 @ (rs + ?t, ?mp) # ext \<and> (\<forall>p \<in> set ((rs + ?t, ?mp) # ext). good p)"
    if a: "selectNewSlot (traced cache) a s cat ?mp rid rs ?sz stl1 = (res2, stl2)" for stl1 stl2 res2
  proof -
    from selectNewSlot_trace [OF a sz] obtain ext where
      e1: "snd stl2 = snd stl1 @ (rs + ?t, ?mp) # ext" and
      e2: "\<forall>p \<in> set ext. snd p = ?mp \<and> (\<exists>k. 1 \<le> k \<and> k < ?sz \<and> fst p = rs + (?t + k) mod ?sz)"
      by blast
    have "good p" if "p \<in> set ((rs + ?t, ?mp) # ext)" for p
    proof -
      from that consider "p = (rs + ?t, ?mp)" | "p \<in> set ext" by auto
      then obtain k where k: "snd p = ?mp" "0 \<le> k" "k < ?sz" "fst p = rs + (?t + k) mod ?sz"
      proof cases
        case 1
        then show ?thesis using that target_as_offset [OF sz, of rs s] sz
          by (intro that [of 0]) auto
      next
        case 2
        with e2 obtain k where "snd p = ?mp" "1 \<le> k" "k < ?sz" "fst p = rs + (?t + k) mod ?sz"
          by blast
        then show ?thesis by (intro that [of k]) auto
      qed
      then show ?thesis using mod_slot_in_range [OF sz, of rs ?t k] unfolding good_def by auto
    qed
    with e1 show ?thesis by blast
  qed
  have all: "\<forall>p \<in> set (snd stl'). good p"
  proof (cases "\<exists>b. iGetSessionSlot cache st a s = Inr b \<and> rs \<le> b \<and> b < re")
    case False
    then have "selectNewSlot (traced cache) a s cat ?mp rid rs ?sz (st, []) = (res, stl')"
      using run unf rs0 by (auto simp: traced_get Let_def split: sum.splits)
    from sel [OF this] show ?thesis by auto
  next
    case True
    then obtain b where b: "iGetSessionSlot cache st a s = Inr b" "rs \<le> b" "b < re" by blast
    obtain r1 stl1 where call:
      "iAcquireSlotWithSession (traced cache) (st, []) a b s ?mp rid cat = (r1, stl1)"
      by (cases "iAcquireSlotWithSession (traced cache) (st, []) a b s ?mp rid cat")
    have log1: "snd stl1 = [(b, ?mp)]" using call by (auto simp: traced_acquire)
    have gb: "good (b, ?mp)" using b unfolding good_def by simp
    show ?thesis
    proof (cases "r1 = Inr False")
      case False
      then have "snd stl' = [(b, ?mp)]"
        using run unf b call log1
        by (auto simp: traced_get traced_refresh Let_def split: sum.splits bool.splits)
      with gb show ?thesis by simp
    next
      case True
      then have "selectNewSlot (traced cache) a s cat ?mp rid rs ?sz stl1 = (res, stl')"
        using run unf b call by (auto simp: traced_get Let_def)
      from sel [OF this] obtain ext where
        e: "snd stl' = snd stl1 @ (rs + ?t, ?mp) # ext"
           "\<forall>p \<in> set ((rs + ?t, ?mp) # ext). good p"
        by blast
      have eq: "snd stl' = (b, ?mp) # (rs + ?t, ?mp) # ext"
        using e(1) log1 by simp
      show ?thesis
      proof
        fix p assume "p \<in> set (snd stl')"
        then have "p = (b, ?mp) \<or> p \<in> set ((rs + ?t, ?mp) # ext)"
          unfolding eq by simp
        then show "good p" using gb e(2) by blast
      qed
    qed
  qed
  then show "\<forall>p \<in> set (snd stl'). snd p = maxParallelFor cat \<and> rs \<le> fst p \<and> fst p < re \<and>
           (iGetSessionSlot cache st a s = Inr (fst p) \<or>
            (\<exists>k. 0 \<le> k \<and> k < re - rs \<and>
                 fst p = rs + (hashToSlotIndex s (re - rs) + k) mod (re - rs)))"
    unfolding good_def by blast
  show "\<not> (\<exists>b. iGetSessionSlot cache st a s = Inr b \<and> rs \<le> b \<and> b < re) \<longrightarrow>
         (\<exists>ext. snd stl' = (rs + ?t, ?mp) # ext)"
  proof
    assume "\<not> (\<exists>b. iGetSessionSlot cache st a s = Inr b \<and> rs \<le> b \<and> b < re)"
    then have "selectNewSlot (traced cache) a s cat ?mp rid rs ?sz (st, []) = (res, stl')"
      using run unf rs0 by (auto simp: traced_get Let_def split: sum.splits)
    from sel [OF this] show "\<exists>ext. snd stl' = (rs + ?t, ?mp) # ext" by auto
  qed
qed

subsection \<open>Session scheduler on the store of the scripts\<close>

lemma script_occupied_fails:
  assumes "slotOccupied st now a i"
  shows "acquireSlotWithSessionScript (ownerKeys st (a, i)) (slotKeys st a) now ttl i s 1 rid =
         (0, ownerKeys st (a, i), slotKeys st a)"
  using assms
  by (auto simp: slotOccupied_def acquireSlotWithSessionScript_def Let_def split: option.splits)

lemma run_occupied_fails:
  assumes "slotOccupied st now a i"
  shows "runAcquireSlotWithSessionScript c now st a i s 1 rid = (False, st)"
  by (simp add: runAcquireSlotWithSessionScript_def script_occupied_fails [OF assms])

lemma redis_occupied_fails:
  assumes "slotOccupied st now a i"
  shows "iAcquireSlotWithSession (redisCache c now) st a i s 1 rid cat = (Inr False, st)"
  by (simp add: redisCache_def run_occupied_fails [OF assms])

lemma fallbackLoop_all_occupied:
  assumes occ: "\<forall>i. rs \<le> i \<and> i < rs + sz \<longrightarrow> slotOccupied st now a i" and sz: "0 < sz"
  shows "fallbackLoop (redisCache c now) a s cat 1 rid rs sz t offset st = (None, st)"
proof (induction "nat (sz - offset)" arbitrary: offset)
  case 0
  then have "\<not> offset < sz" by simp
  then show ?case by (simp add: fallbackLoop.simps)
next
  case (Suc n)
  then have lt: "offset < sz" by simp
  have busy: "slotOccupied st now a (rs + (t + offset) mod sz)"
    using occ mod_slot_in_range [OF sz, of rs t offset] by blast
  have "n = nat (sz - (offset + 1))" using Suc.hyps(2) by simp
  then have "fallbackLoop (redisCache c now) a s cat 1 rid rs sz t (offset + 1) st = (None, st)"
    by (rule Suc.hyps(1))
  then show ?case
    using lt redis_occupied_fails [OF busy, of c s rid cat]
    by (subst fallbackLoop.simps) (simp add: Let_def)
qed

lemma selectNewSlot_all_occupied:
  assumes occ: "\<forall>i. rs \<le> i \<and> i < rs + sz \<longrightarrow> slotOccupied st now a i" and sz: "0 < sz"
  shows "selectNewSlot (redisCache c now) a s cat 1 rid rs sz st =
         (Inr \<lparr>Acquired = False, SlotIndex = rs + hashToSlotIndex s sz, ReleaseFunc = NilRelease\<rparr>, st)"
proof -
  have "slotOccupied st now a (rs + hashToSlotIndex s sz)"
    using occ hashToSlotIndex_range [OF sz, of s] by simp
  from redis_occupied_fails [OF this, of c s rid cat]
    fallbackLoop_all_occupied [OF occ sz, of c s cat rid "hashToSlotIndex s sz" 1]
  show ?thesis by (simp add: selectNewSlot_def Let_def)
qed

lemma AcquireSessionSlot_all_occupied:
  assumes C: "0 < C" and rng: "slotRange (CalculateTotalSlots C) cat = (rs, re)"
    and lt0: "rs < re" and mp: "maxParallelFor cat = 1"
    and occ: "\<forall>i. rs \<le> i \<and> i < re \<longrightarrow> slotOccupied st now a i"
  shows "AcquireSessionSlot (Some (redisCache c now)) st a C s cat rid =
         (Inr \<lparr>Acquired = False, SlotIndex = rs + hashToSlotIndex s (re - rs),
               ReleaseFunc = NilRelease\<rparr>, st)"
proof -
  from AcquireSessionSlot_unfold [OF C rng lt0, of "redisCache c now" st a s rid]
  have lt: "rs < re" and unf: "AcquireSessionSlot (Some (redisCache c now)) st a C s cat rid =
     (let boundSlot = (case iGetSessionSlot (redisCache c now) st a s of Inl err \<Rightarrow> -1 | Inr slot \<Rightarrow> slot)
      in if rs \<le> boundSlot \<and> boundSlot < re then
           (case iAcquireSlotWithSession (redisCache c now) st a boundSlot s (maxParallelFor cat) rid cat of
              (Inl err, st') \<Rightarrow> (Inl (AcquireBoundSlotFailed err), st')
            | (Inr True, st') \<Rightarrow>
                (Inr \<lparr>Acquired = True, SlotIndex = boundSlot,
                      ReleaseFunc = ReleaseSlotWithSession a boundSlot s cat\<rparr>,
                 iRefreshSessionSlotTTL (redisCache c now) st' a s)
            | (Inr False, st') \<Rightarrow>
                selectNewSlot (redisCache c now) a s cat (maxParallelFor cat) rid rs (re - rs) st')
         else selectNewSlot (redisCache c now) a s cat (maxParallelFor cat) rid rs (re - rs) st)"
    by blast+
  have sz: "0 < re - rs" using lt by simp
  have occ': "\<forall>i. rs \<le> i \<and> i < rs + (re - rs) \<longrightarrow> slotOccupied st now a i"
    using occ by simp
  have sel: "selectNewSlot (redisCache c now) a s cat 1 rid rs (re - rs) st =
         (Inr \<lparr>Acquired = False, SlotIndex = rs + hashToSlotIndex s (re - rs),
               ReleaseFunc = NilRelease\<rparr>, st)"
    by (rule selectNewSlot_all_occupied [OF occ' sz])
  have bound: "rs \<le> b \<and> b < re \<Longrightarrow>
      iAcquireSlotWithSession (redisCache c now) st a b s 1 rid cat = (Inr False, st)" for b
    using occ redis_occupied_fails by blast
  show ?thesis
    unfolding unf mp by (simp add: Let_def sel bound)
qed

subsection \<open>Same-session bursts\<close>

lemma script_live_owner:
  assumes "0 < h_count h" and "\<not> (0 < h_expire h \<and> h_expire h < now)"
  shows "acquireSlotWithSessionScript (Some h) slotKey now ttl i s mp rid =
     (if s = h_owner h \<and> h_count h < mp then
        (1, EXPIRE_h (Some (h\<lparr>h_count := h_count h + 1, h_expire := now + ttl\<rparr>)) ttl,
         EXPIRE (ZADD slotKey now (SlotID i)) ttl)
      else (0, Some h, slotKey))"
  using assms by (auto simp: acquireSlotWithSessionScript_def Let_def)

lemma script_free_slot:
  assumes "ZSCORE slotKey (SlotID i) = None"
  shows "acquireSlotWithSessionScript None slotKey now ttl i s mp rid =
     (1, EXPIRE_h (Some \<lparr>h_owner = s, h_count = 1, h_expire = now + ttl, h_ttl = None\<rparr>) ttl,
      EXPIRE (ZADD slotKey now (SlotID i)) ttl)"
  using assms by (simp add: acquireSlotWithSessionScript_def Let_def)

lemma ZSCORE_added:
  "0 < ttl \<Longrightarrow> ZSCORE (EXPIRE (ZADD slotKey now m) ttl) m' = (if m' = m then Some now else ZSCORE slotKey m')"
  by (simp add: ZSCORE_def EXPIRE_def ZADD_def znorm_def update_conv')

lemma burst_live:
  assumes ttl: "0 < ttl"
  shows "0 < h_count h \<Longrightarrow> \<not> (0 < h_expire h \<and> h_expire h < now) \<Longrightarrow> h_owner h = s \<Longrightarrow>
     fst (sameSessionBurst n (Some h) slotKey now ttl i s mp rid) =
       replicate (min n (nat (mp - h_count h))) 1 @ replicate (n - nat (mp - h_count h)) 0"
proof (induction n arbitrary: h slotKey)
  case 0
  then show ?case by simp
next
  case (Suc n)
  show ?case
  proof (cases "h_count h < mp")
    case True
    let ?h' = "h\<lparr>h_count := h_count h + 1, h_expire := now + ttl, h_ttl := Some ttl\<rparr>"
    have step: "acquireSlotWithSessionScript (Some h) slotKey now ttl i s mp rid =
        (1, Some ?h', EXPIRE (ZADD slotKey now (SlotID i)) ttl)"
      using script_live_owner [OF Suc.prems(1,2), of slotKey ttl i s mp rid] True Suc.prems(3) ttl
      by (simp add: EXPIRE_h_def)
    have "fst (sameSessionBurst n (Some ?h') (EXPIRE (ZADD slotKey now (SlotID i)) ttl) now ttl i s mp rid) =
        replicate (min n (nat (mp - h_count ?h'))) 1 @ replicate (n - nat (mp - h_count ?h')) 0"
      using Suc.prems ttl by (intro Suc.IH) simp_all
    moreover have "nat (mp - h_count h) = Suc (nat (mp - (h_count h + 1)))"
      using True by simp
    ultimately show ?thesis
      by (simp add: step split_def Let_def)
  next
    case False
    have step: "acquireSlotWithSessionScript (Some h) slotKey now ttl i s mp rid = (0, Some h, slotKey)"
      using script_live_owner [OF Suc.prems(1,2), of slotKey ttl i s mp rid] False by simp
    have "fst (sameSessionBurst n (Some h) slotKey now ttl i s mp rid) =
        replicate (min n (nat (mp - h_count h))) 1 @ replicate (n - nat (mp - h_count h)) 0"
      using Suc.prems by (intro Suc.IH)
    moreover have "nat (mp - h_count h) = 0" using False by simp
    ultimately show ?thesis
      by (simp add: step split_def Let_def)
  qed
qed

lemma burst_free:
  assumes ttl: "0 < ttl" and free: "ZSCORE slotKey (SlotID i) = None" and mp: "1 \<le> mp"
  shows "fst (sameSessionBurst n None slotKey now ttl i s mp rid) =
       replicate (min n (nat mp)) 1 @ replicate (n - nat mp) 0"
proof (cases n)
  case 0
  then show ?thesis by simp
next
  case (Suc m)
  let ?h = "\<lparr>h_owner = s, h_count = 1, h_expire = now + ttl, h_ttl = Some ttl\<rparr>"
  have step: "acquireSlotWithSessionScript None slotKey now ttl i s mp rid =
      (1, Some ?h, EXPIRE (ZADD slotKey now (SlotID i)) ttl)"
    using script_free_slot [OF free, of now ttl s mp rid] ttl by (simp add: EXPIRE_h_def)
  have "fst (sameSessionBurst m (Some ?h) (EXPIRE (ZADD slotKey now (SlotID i)) ttl) now ttl i s mp rid) =
       replicate (min m (nat (mp - h_count ?h))) 1 @ replicate (m - nat (mp - h_count ?h)) 0"
    using ttl by (intro burst_live) simp_all
  moreover have "nat mp = Suc (nat (mp - 1))" using mp by simp
  ultimately show ?thesis
    using Suc by (simp add: step split_def Let_def)
qed

lemma NewConcurrencyCache_ttl: "0 < slotTTLSeconds (NewConcurrencyCache m w)"
  by (simp add: NewConcurrencyCache_def defaultSlotTTLMinutes_def Let_def)

subsection \<open>Requests through the scheduler on the store of the scripts\<close>

lemma slotOwner_Some:
  "slotOwner st now a i = Some (s, k) \<longleftrightarrow>
     (\<exists>h. ownerKeys st (a, i) = Some h \<and> h_owner h = s \<and> h_count h = k \<and> 0 < k \<and>
          \<not> (0 < h_expire h \<and> h_expire h < now))"
  by (auto simp: slotOwner_def split: option.splits)

lemma run_live_owner_store:
  assumes "ownerKeys st (a, i) = Some h" and "0 < h_count h"
    and "\<not> (0 < h_expire h \<and> h_expire h < now)" and "h_owner h = s" and "h_count h < mp"
    and "0 < slotTTLSeconds c"
  shows "runAcquireSlotWithSessionScript c now st a i s mp rid =
     (True, st\<lparr>ownerKeys := (ownerKeys st)((a, i) \<mapsto>
                   h\<lparr>h_count := h_count h + 1, h_expire := now + slotTTLSeconds c,
                     h_ttl := Some (slotTTLSeconds c)\<rparr>),
               slotKeys := (slotKeys st)(a := EXPIRE (ZADD (slotKeys st a) now (SlotID i))
                                                 (slotTTLSeconds c))\<rparr>)"
  using assms script_live_owner [OF assms(2,3), of "slotKeys st a" "slotTTLSeconds c" i s mp rid]
  by (simp add: runAcquireSlotWithSessionScript_def EXPIRE_h_def)

lemma run_free_slot_store:
  assumes "ownerKeys st (a, i) = None" and "ZSCORE (slotKeys st a) (SlotID i) = None"
    and "0 < slotTTLSeconds c"
  shows "runAcquireSlotWithSessionScript c now st a i s mp rid =
     (True, st\<lparr>ownerKeys := (ownerKeys st)((a, i) \<mapsto>
                   \<lparr>h_owner = s, h_count = 1, h_expire = now + slotTTLSeconds c,
                    h_ttl = Some (slotTTLSeconds c)\<rparr>),
               slotKeys := (slotKeys st)(a := EXPIRE (ZADD (slotKeys st a) now (SlotID i))
                                                 (slotTTLSeconds c))\<rparr>)"
  using assms script_free_slot [OF assms(2), of now "slotTTLSeconds c" s mp rid]
  by (simp add: runAcquireSlotWithSessionScript_def EXPIRE_h_def)

lemma redis_bound_call:
  assumes C: "0 < C" and rng: "slotRange (CalculateTotalSlots C) cat = (rs, re)"
    and t: "rs \<le> t" "t < re" and ttl: "0 < slotTTLSeconds c"
    and bound: "sessionSlots st (a, s) = Some t"
    and own: "slotOwner st now a t = Some (s, k)" and k: "k < maxParallelFor cat"
  shows "\<exists>st'. AcquireSessionSlot (Some (redisCache c now)) st a C s cat rid =
            (Inr \<lparr>Acquired = True, SlotIndex = t,
                  ReleaseFunc = ReleaseSlotWithSession a t s cat\<rparr>, st') \<and>
          sessionSlots st' (a, s) = Some t \<and> slotOwner st' now a t = Some (s, k + 1)"
proof -
  from own obtain h where h: "ownerKeys st (a, t) = Some h" "h_owner h = s" "h_count h = k"
    "0 < k" "\<not> (0 < h_expire h \<and> h_expire h < now)"
    by (auto simp: slotOwner_Some)
  have lt: "rs < re" using t by simp
  have run: "runAcquireSlotWithSessionScript c now st a t s (maxParallelFor cat) rid =
     (True, st\<lparr>ownerKeys := (ownerKeys st)((a, t) \<mapsto>
                   h\<lparr>h_count := h_count h + 1, h_expire := now + slotTTLSeconds c,
                     h_ttl := Some (slotTTLSeconds c)\<rparr>),
               slotKeys := (slotKeys st)(a := EXPIRE (ZADD (slotKeys st a) now (SlotID t))
                                                 (slotTTLSeconds c))\<rparr>)"
    using h k ttl by (intro run_live_owner_store) simp_all
  from AcquireSessionSlot_unfold [OF C rng lt, of "redisCache c now" st a s rid]
  have unf: "AcquireSessionSlot (Some (redisCache c now)) st a C s cat rid =
     (let boundSlot = (case iGetSessionSlot (redisCache c now) st a s of Inl err \<Rightarrow> -1 | Inr slot \<Rightarrow> slot)
      in if rs \<le> boundSlot \<and> boundSlot < re then
           (case iAcquireSlotWithSession (redisCache c now) st a boundSlot s (maxParallelFor cat) rid cat of
              (Inl err, st') \<Rightarrow> (Inl (AcquireBoundSlotFailed err), st')
            | (Inr True, st') \<Rightarrow>
                (Inr \<lparr>Acquired = True, SlotIndex = boundSlot,
                      ReleaseFunc = ReleaseSlotWithSession a boundSlot s cat\<rparr>,
                 iRefreshSessionSlotTTL (redisCache c now) st' a s)
            | (Inr False, st') \<Rightarrow>
                selectNewSlot (redisCache c now) a s cat (maxParallelFor cat) rid rs (re - rs) st')
         else selectNewSlot (redisCache c now) a s cat (maxParallelFor cat) rid rs (re - rs) st)"
    by blast
  show ?thesis
    unfolding unf using bound t h ttl
    by (simp add: redisCache_def Let_def run slotOwner_Some)
qed

lemma redis_first_call:
  assumes C: "0 < C" and rng: "slotRange (CalculateTotalSlots C) cat = (rs, re)"
    and lt: "rs < re" and ttl: "0 < slotTTLSeconds c"
    and unbound: "sessionSlots st (a, s) = None"
    and free: "ownerKeys st (a, rs + hashToSlotIndex s (re - rs)) = None"
      "ZSCORE (slotKeys st a) (SlotID (rs + hashToSlotIndex s (re - rs))) = None"
  shows "\<exists>st'. AcquireSessionSlot (Some (redisCache c now)) st a C s cat rid =
            (Inr \<lparr>Acquired = True, SlotIndex = rs + hashToSlotIndex s (re - rs),
                  ReleaseFunc = ReleaseSlotWithSession a (rs + hashToSlotIndex s (re - rs)) s cat\<rparr>,
             st') \<and>
          sessionSlots st' (a, s) = Some (rs + hashToSlotIndex s (re - rs)) \<and>
          slotOwner st' now a (rs + hashToSlotIndex s (re - rs)) = Some (s, 1)"
proof -
  let ?t = "rs + hashToSlotIndex s (re - rs)"
  have run: "runAcquireSlotWithSessionScript c now st a ?t s (maxParallelFor cat) rid =
     (True, st\<lparr>ownerKeys := (ownerKeys st)((a, ?t) \<mapsto>
                   \<lparr>h_owner = s, h_count = 1, h_expire = now + slotTTLSeconds c,
                    h_ttl = Some (slotTTLSeconds c)\<rparr>),
               slotKeys := (slotKeys st)(a := EXPIRE (ZADD (slotKeys st a) now (SlotID ?t))
                                                 (slotTTLSeconds c))\<rparr>)"
    using free ttl by (intro run_free_slot_store) simp_all
  from AcquireSessionSlot_unfold [OF C rng lt, of "redisCache c now" st a s rid]
  have rs0: "0 \<le> rs" and unf: "AcquireSessionSlot (Some (redisCache c now)) st a C s cat rid =
     (let boundSlot = (case iGetSessionSlot (redisCache c now) st a s of Inl err \<Rightarrow> -1 | Inr slot \<Rightarrow> slot)
      in if rs \<le> boundSlot \<and> boundSlot < re then
           (case iAcquireSlotWithSession (redisCache c now) st a boundSlot s (maxParallelFor cat) rid cat of
              (Inl err, st') \<Rightarrow> (Inl (AcquireBoundSlotFailed err), st')
            | (Inr True, st') \<Rightarrow>
                (Inr \<lparr>Acquired = True, SlotIndex = boundSlot,
                      ReleaseFunc = ReleaseSlotWithSession a boundSlot s cat\<rparr>,
                 iRefreshSessionSlotTTL (redisCache c now) st' a s)
            | (Inr False, st') \<Rightarrow>
                selectNewSlot (redisCache c now) a s cat (maxParallelFor cat) rid rs (re - rs) st')
         else selectNewSlot (redisCache c now) a s cat (maxParallelFor cat) rid rs (re - rs) st)"
    by blast+
  have sel: "selectNewSlot (redisCache c now) a s cat (maxParallelFor cat) rid rs (re - rs) st =
      (Inr \<lparr>Acquired = True, SlotIndex = ?t, ReleaseFunc = ReleaseSlotWithSession a ?t s cat\<rparr>,
       iSetSessionSlot (redisCache c now)
         (snd (runAcquireSlotWithSessionScript c now st a ?t s (maxParallelFor cat) rid)) a s ?t)"
    by (simp add: selectNewSlot_def Let_def redisCache_def run)
  show ?thesis
    unfolding unf using unbound rs0 ttl
    by (simp add: Let_def sel) (simp add: redisCache_def run slotOwner_Some)
qed

lemma sessionBurst_bound:
  assumes C: "0 < C" and rng: "slotRange (CalculateTotalSlots C) cat = (rs, re)"
    and t: "rs \<le> t" "t < re" and ttl: "0 < slotTTLSeconds c"
  shows "sessionSlots st (a, s) = Some t \<Longrightarrow> slotOwner st now a t = Some (s, k) \<Longrightarrow>
         k + int (length rids) \<le> maxParallelFor cat \<Longrightarrow>
         \<exists>st'. sessionBurst (redisCache c now) st a C s cat rids =
            (map (\<lambda>rid. Inr \<lparr>Acquired = True, SlotIndex = t,
                              ReleaseFunc = ReleaseSlotWithSession a t s cat\<rparr>) rids, st') \<and>
          sessionSlots st' (a, s) = Some t \<and>
          slotOwner st' now a t = Some (s, k + int (length rids))"
proof (induction rids arbitrary: st k)
  case Nil
  then show ?case by simp
next
  case (Cons rid rids)
  from Cons.prems(3) have k: "k < maxParallelFor cat" by simp
  from redis_bound_call [OF C rng t ttl Cons.prems(1,2) k, of rid]
  obtain st1 where 1: "AcquireSessionSlot (Some (redisCache c now)) st a C s cat rid =
            (Inr \<lparr>Acquired = True, SlotIndex = t,
                  ReleaseFunc = ReleaseSlotWithSession a t s cat\<rparr>, st1)"
    "sessionSlots st1 (a, s) = Some t" "slotOwner st1 now a t = Some (s, k + 1)"
    by blast
  from Cons.prems(3) have "k + 1 + int (length rids) \<le> maxParallelFor cat" by simp
  from Cons.IH [OF 1(2,3) this]
  obtain st2 where 2: "sessionBurst (redisCache c now) st1 a C s cat rids =
            (map (\<lambda>rid. Inr \<lparr>Acquired = True, SlotIndex = t,
                              ReleaseFunc = ReleaseSlotWithSession a t s cat\<rparr>) rids, st2)"
    "sessionSlots st2 (a, s) = Some t"
    "slotOwner st2 now a t = Some (s, k + 1 + int (length rids))"
    by blast
  have own: "slotOwner st2 now a t = Some (s, k + int (length (rid # rids)))"
    using 2(3) by (simp add: add.assoc)
  have run: "sessionBurst (redisCache c now) st a C s cat (rid # rids) =
      (map (\<lambda>rid. Inr \<lparr>Acquired = True, SlotIndex = t,
                        ReleaseFunc = ReleaseSlotWithSession a t s cat\<rparr>) (rid # rids), st2)"
    by (simp add: 1(1) 2(1))
  from run 2(2) own show ?case by blast
qed

lemma sessionBurst_free:
  assumes C: "0 < C" and rng: "slotRange (CalculateTotalSlots C) cat = (rs, re)"
    and lt: "rs < re" and ttl: "0 < slotTTLSeconds c"
    and unbound: "sessionSlots st (a, s) = None"
    and free: "ownerKeys st (a, rs + hashToSlotIndex s (re - rs)) = None"
      "ZSCORE (slotKeys st a) (SlotID (rs + hashToSlotIndex s (re - rs))) = None"
    and n: "int (length rids) \<le> maxParallelFor cat"
  shows "\<exists>st'. sessionBurst (redisCache c now) st a C s cat rids =
            (map (\<lambda>rid. Inr \<lparr>Acquired = True, SlotIndex = rs + hashToSlotIndex s (re - rs),
                    ReleaseFunc = ReleaseSlotWithSession a (rs + hashToSlotIndex s (re - rs)) s cat\<rparr>)
               rids, st') \<and>
          (rids \<noteq> [] \<longrightarrow>
             sessionSlots st' (a, s) = Some (rs + hashToSlotIndex s (re - rs)) \<and>
             slotOwner st' now a (rs + hashToSlotIndex s (re - rs)) = Some (s, int (length rids)))"
proof (cases rids)
  case Nil
  then show ?thesis by simp
next
  case (Cons rid rest)
  let ?t = "rs + hashToSlotIndex s (re - rs)"
  from redis_first_call [OF C rng lt ttl unbound free, of now rid]
  obtain st1 where 1: "AcquireSessionSlot (Some (redisCache c now)) st a C s cat rid =
            (Inr \<lparr>Acquired = True, SlotIndex = ?t,
                  ReleaseFunc = ReleaseSlotWithSession a ?t s cat\<rparr>, st1)"
    "sessionSlots st1 (a, s) = Some ?t" "slotOwner st1 now a ?t = Some (s, 1)"
    by blast
  have t: "rs \<le> ?t" "?t < re"
    using hashToSlotIndex_range [of "re - rs" s] lt by simp_all
  from n Cons have "1 + int (length rest) \<le> maxParallelFor cat" by simp
  from sessionBurst_bound [OF C rng t ttl 1(2,3) this]
  obtain st2 where 2: "sessionBurst (redisCache c now) st1 a C s cat rest =
            (map (\<lambda>rid. Inr \<lparr>Acquired = True, SlotIndex = ?t,
                              ReleaseFunc = ReleaseSlotWithSession a ?t s cat\<rparr>) rest, st2)"
    "sessionSlots st2 (a, s) = Some ?t"
    "slotOwner st2 now a ?t = Some (s, 1 + int (length rest))"
    by blast
  have own: "slotOwner st2 now a ?t = Some (s, int (length rids))"
    using 2(3) Cons by simp
  have run: "sessionBurst (redisCache c now) st a C s cat rids =
      (map (\<lambda>rid. Inr \<lparr>Acquired = True, SlotIndex = ?t,
                        ReleaseFunc = ReleaseSlotWithSession a ?t s cat\<rparr>) rids, st2)"
    using Cons by (simp add: 1(1) 2(1))
  from run 2(2) own show ?thesis by blast
qed

lemma fallbackLoop_avoid:
  assumes acq: "\<And>x j. P x \<Longrightarrow> P (snd (iAcquireSlotWithSession cache x a j s mp rid cat))"
    and deny: "\<And>x. P x \<Longrightarrow> fst (iAcquireSlotWithSession cache x a i s mp rid cat) \<noteq> Inr True"
    and set: "\<And>x j. P x \<Longrightarrow> P (iSetSessionSlot cache x a s j)"
  shows "P st \<Longrightarrow> fallbackLoop cache a s cat mp rid rs sz t offset st = (res, st') \<Longrightarrow>
         P st' \<and> (\<forall>r. res = Some r \<longrightarrow> SlotIndex r \<noteq> i)"
proof (induction "nat (sz - offset)" arbitrary: offset st)
  case 0
  then have "\<not> offset < sz" by simp
  with "0.prems" show ?case by (simp add: fallbackLoop.simps)
next
  case (Suc n)
  then have lt: "offset < sz" by simp
  let ?j = "rs + (t + offset) mod sz"
  obtain r1 st1 where call: "iAcquireSlotWithSession cache st a ?j s mp rid cat = (r1, st1)"
    by (cases "iAcquireSlotWithSession cache st a ?j s mp rid cat")
  from acq [OF Suc.prems(1), of ?j] call have p1: "P st1" by simp
  from deny [OF Suc.prems(1)] call have ne: "?j = i \<longrightarrow> r1 \<noteq> Inr True" by auto
  show ?case
  proof (cases "r1 = Inr True")
    case True
    with Suc.prems(2) lt call
    have "res = Some \<lparr>Acquired = True, SlotIndex = ?j,
                      ReleaseFunc = ReleaseSlotWithSession a ?j s cat\<rparr>"
      and "st' = iSetSessionSlot cache st1 a s ?j"
      by (subst (asm) fallbackLoop.simps, simp add: Let_def)+
    with set [OF p1, of ?j] ne True show ?thesis by auto
  next
    case False
    then have nxt: "fallbackLoop cache a s cat mp rid rs sz t (offset + 1) st1 = (res, st')"
      using Suc.prems(2) lt call
      by (subst (asm) fallbackLoop.simps) (auto simp: Let_def split: sum.splits if_splits)
    have "n = nat (sz - (offset + 1))" using Suc.hyps(2) by simp
    from Suc.hyps(1) [OF this p1 nxt] show ?thesis .
  qed
qed

lemma selectNewSlot_avoid:
  assumes acq: "\<And>x j. P x \<Longrightarrow> P (snd (iAcquireSlotWithSession cache x a j s mp rid cat))"
    and deny: "\<And>x. P x \<Longrightarrow> fst (iAcquireSlotWithSession cache x a i s mp rid cat) \<noteq> Inr True"
    and set: "\<And>x j. P x \<Longrightarrow> P (iSetSessionSlot cache x a s j)"
    and p: "P st" and run: "selectNewSlot cache a s cat mp rid rs sz st = (res, st')"
  shows "P st' \<and> (\<forall>r. res = Inr r \<and> Acquired r \<longrightarrow> SlotIndex r \<noteq> i)"
proof -
  let ?t = "hashToSlotIndex s sz"
  obtain r1 st1 where call: "iAcquireSlotWithSession cache st a (rs + ?t) s mp rid cat = (r1, st1)"
    by (cases "iAcquireSlotWithSession cache st a (rs + ?t) s mp rid cat")
  from acq [OF p, of "rs + ?t"] call have p1: "P st1" by simp
  from deny [OF p] call have ne: "rs + ?t = i \<longrightarrow> r1 \<noteq> Inr True" by auto
  show ?thesis
  proof (cases r1)
    case (Inl e)
    with run call have "res = Inl (AcquireTargetSlotFailed e)" "st' = st1"
      by (auto simp: selectNewSlot_def Let_def)
    with p1 show ?thesis by simp
  next
    case (Inr b)
    show ?thesis
    proof (cases b)
      case True
      with Inr run call
      have "res = Inr \<lparr>Acquired = True, SlotIndex = rs + ?t,
                      ReleaseFunc = ReleaseSlotWithSession a (rs + ?t) s cat\<rparr>"
        and "st' = iSetSessionSlot cache st1 a s (rs + ?t)"
        by (auto simp: selectNewSlot_def Let_def)
      with set [OF p1, of "rs + ?t"] ne Inr True show ?thesis by auto
    next
      case False
      obtain fr st2 where fb: "fallbackLoop cache a s cat mp rid rs sz ?t 1 st1 = (fr, st2)"
        by (cases "fallbackLoop cache a s cat mp rid rs sz ?t 1 st1")
      from fallbackLoop_avoid [of P cache a s mp rid cat i st1 rs sz ?t 1 fr st2, OF acq deny set p1 fb]
      have p2: "P st2" and av: "\<forall>r. fr = Some r \<longrightarrow> SlotIndex r \<noteq> i" by blast+
      from Inr False run call fb have "st' = st2"
        and "fr = None \<longrightarrow> res = Inr \<lparr>Acquired = False, SlotIndex = rs + ?t, ReleaseFunc = NilRelease\<rparr>"
        and "\<forall>r. fr = Some r \<longrightarrow> res = Inr r"
        by (auto simp: selectNewSlot_def Let_def split: option.splits)
      with p2 av show ?thesis by (cases fr) auto
    qed
  qed
qed

lemma AcquireSessionSlot_avoid:
  assumes acq: "\<And>x j. P x \<Longrightarrow>
      P (snd (iAcquireSlotWithSession cache x a j s (maxParallelFor cat) rid cat))"
    and deny: "\<And>x. P x \<Longrightarrow>
      fst (iAcquireSlotWithSession cache x a i s (maxParallelFor cat) rid cat) \<noteq> Inr True"
    and set: "\<And>x j. P x \<Longrightarrow> P (iSetSessionSlot cache x a s j)"
    and refresh: "\<And>x. P x \<Longrightarrow> P (iRefreshSessionSlotTTL cache x a s)"
    and p: "P st" and C: "0 < C"
    and run: "AcquireSessionSlot (Some cache) st a C s cat rid = (res, st')"
  shows "P st' \<and> (\<forall>r. res = Inr r \<and> Acquired r \<longrightarrow> SlotIndex r \<noteq> i)"
proof -
  obtain rs re where rng: "slotRange (CalculateTotalSlots C) cat = (rs, re)"
    by (cases "slotRange (CalculateTotalSlots C) cat")
  let ?mp = "maxParallelFor cat"
  show ?thesis
  proof (cases "rs < re")
    case False
    then have "AcquireSessionSlot (Some cache) st a C s cat rid =
        (Inr \<lparr>Acquired = False, SlotIndex = -1, ReleaseFunc = NilRelease\<rparr>, st)"
      by (intro AcquireSessionSlot_empty [OF C rng]) simp
    with run p show ?thesis by auto
  next
    case True
    from AcquireSessionSlot_unfold [OF C rng True, of cache st a s rid]
    have unf: "AcquireSessionSlot (Some cache) st a C s cat rid =
     (let boundSlot = (case iGetSessionSlot cache st a s of Inl err \<Rightarrow> -1 | Inr slot \<Rightarrow> slot)
      in if rs \<le> boundSlot \<and> boundSlot < re then
           (case iAcquireSlotWithSession cache st a boundSlot s ?mp rid cat of
              (Inl err, st') \<Rightarrow> (Inl (AcquireBoundSlotFailed err), st')
            | (Inr True, st') \<Rightarrow>
                (Inr \<lparr>Acquired = True, SlotIndex = boundSlot,
                      ReleaseFunc = ReleaseSlotWithSession a boundSlot s cat\<rparr>,
                 iRefreshSessionSlotTTL cache st' a s)
            | (Inr False, st') \<Rightarrow> selectNewSlot cache a s cat ?mp rid rs (re - rs) st')
         else selectNewSlot cache a s cat ?mp rid rs (re - rs) st)"
      by blast
    define b where "b = (case iGetSessionSlot cache st a s of Inl err \<Rightarrow> -1 | Inr slot \<Rightarrow> slot)"
    have unf': "AcquireSessionSlot (Some cache) st a C s cat rid =
     (if rs \<le> b \<and> b < re then
           (case iAcquireSlotWithSession cache st a b s ?mp rid cat of
              (Inl err, st') \<Rightarrow> (Inl (AcquireBoundSlotFailed err), st')
            | (Inr True, st') \<Rightarrow>
                (Inr \<lparr>Acquired = True, SlotIndex = b,
                      ReleaseFunc = ReleaseSlotWithSession a b s cat\<rparr>,
                 iRefreshSessionSlotTTL cache st' a s)
            | (Inr False, st') \<Rightarrow> selectNewSlot cache a s cat ?mp rid rs (re - rs) st')
         else selectNewSlot cache a s cat ?mp rid rs (re - rs) st)"
      unfolding b_def using unf by (simp add: Let_def)
    have sel: "P x \<Longrightarrow> selectNewSlot cache a s cat ?mp rid rs (re - rs) x = (res, st') \<Longrightarrow>
        P st' \<and> (\<forall>r. res = Inr r \<and> Acquired r \<longrightarrow> SlotIndex r \<noteq> i)" for x
      using selectNewSlot_avoid [of P cache a s ?mp rid cat i x rs "re - rs" res st', OF acq deny set]
      by blast
    show ?thesis
    proof (cases "rs \<le> b \<and> b < re")
      case False
      with run unf' have "selectNewSlot cache a s cat ?mp rid rs (re - rs) st = (res, st')"
        by simp
      from sel [OF p this] show ?thesis .
    next
      case inrange: True
      obtain r1 st1 where call: "iAcquireSlotWithSession cache st a b s ?mp rid cat = (r1, st1)"
        by (cases "iAcquireSlotWithSession cache st a b s ?mp rid cat")
      from acq [OF p, of b] call have p1: "P st1" by simp
      from deny [OF p] call have ne: "b = i \<longrightarrow> r1 \<noteq> Inr True" by auto
      show ?thesis
      proof (cases r1)
        case (Inl e)
        with run unf' inrange call have "res = Inl (AcquireBoundSlotFailed e)" "st' = st1"
          by auto
        with p1 show ?thesis by simp
      next
        case (Inr ok)
        show ?thesis
        proof (cases ok)
          case True
          with Inr run unf' inrange call
          have "res = Inr \<lparr>Acquired = True, SlotIndex = b,
                          ReleaseFunc = ReleaseSlotWithSession a b s cat\<rparr>"
            and "st' = iRefreshSessionSlotTTL cache st1 a s"
            by auto
          with refresh [OF p1] ne Inr True show ?thesis by auto
        next
          case False
          with Inr run unf' inrange call
          have "selectNewSlot cache a s cat ?mp rid rs (re - rs) st1 = (res, st')"
            by auto
          from sel [OF p1 this] show ?thesis .
        qed
      qed
    qed
  qed
qed

lemma redis_no_share:
  assumes own: "slotOwner st now a i = Some (s0, k)"
    and other: "s \<noteq> s0 \<or> maxParallelFor cat \<le> k" and C: "0 < C"
    and run: "AcquireSessionSlot (Some (redisCache c now)) st a C s cat rid = (res, st')"
  shows "slotOwner st' now a i = Some (s0, k) \<and>
         ownerKeys st' (a, i) = ownerKeys st (a, i) \<and>
         (\<forall>r. res = Inr r \<and> Acquired r \<longrightarrow> SlotIndex r \<noteq> i)"
proof -
  from own obtain h where h: "ownerKeys st (a, i) = Some h" "h_owner h = s0" "h_count h = k"
    "0 < k" "\<not> (0 < h_expire h \<and> h_expire h < now)"
    by (auto simp: slotOwner_Some)
  define P where "P = (\<lambda>x :: store. ownerKeys x (a, i) = Some h)"
  have scr: "acquireSlotWithSessionScript (Some h) (slotKeys x a) now (slotTTLSeconds c) i s
            (maxParallelFor cat) rid = (0, Some h, slotKeys x a)" for x :: store
    using script_live_owner [of h now "slotKeys x a" "slotTTLSeconds c" i s "maxParallelFor cat" rid]
      h other by auto
  have acq: "P (snd (iAcquireSlotWithSession (redisCache c now) x a j s (maxParallelFor cat) rid cat))"
    if "P x" for x j
  proof (cases "j = i")
    case True
    with that scr [of x] show ?thesis
      by (simp add: P_def redisCache_def runAcquireSlotWithSessionScript_def)
  next
    case False
    with that show ?thesis
      by (simp add: P_def redisCache_def runAcquireSlotWithSessionScript_def split_def Let_def)
  qed
  have deny: "fst (iAcquireSlotWithSession (redisCache c now) x a i s (maxParallelFor cat) rid cat)
      \<noteq> Inr True" if "P x" for x
    using that scr [of x]
    by (simp add: P_def redisCache_def runAcquireSlotWithSessionScript_def)
  have set: "P (iSetSessionSlot (redisCache c now) x a s j)" if "P x" for x j
    using that by (simp add: P_def redisCache_def)
  have refresh: "P (iRefreshSessionSlotTTL (redisCache c now) x a s)" if "P x" for x
    using that by (simp add: P_def redisCache_def)
  have p: "P st" using h by (simp add: P_def)
  from AcquireSessionSlot_avoid [of P "redisCache c now" a s cat rid i st C res st',
      OF acq deny set refresh p C run]
  have "P st'" and av: "\<forall>r. res = Inr r \<and> Acquired r \<longrightarrow> SlotIndex r \<noteq> i" by blast+
  then have "ownerKeys st' (a, i) = Some h" by (simp add: P_def)
  with h av show ?thesis by (simp add: slotOwner_Some)
qed

subsection \<open>Model categories\<close>




section \<open>Claims\<close>

text \<open>
  C1. With concurrency limit 3 the pool has 4 slots. Four sessions whose hashes map to
  the four slots each acquire one through \<^verbatim>\<open>AcquireSessionSlot\<close> (light model, nothing
  released): four slots of the account are occupied at once, one more than the limit.
  Neither the session-aware script nor the scan compares the number of occupied slots with
  the limit.
\<close>

theorem C1_over_admission:
  "(let c = NewConcurrencyCache 15 0;
        acq = (\<lambda>st s. AcquireSessionSlot (Some (redisCache c 1000)) st 1 3 s ''haiku'' ''req'');
        (r1, st1) = acq emptyStore ''a'';
        (r2, st2) = acq st1 ''b'';
        (r3, st3) = acq st2 ''c'';
        (r4, st4) = acq st3 ''d''
    in CalculateTotalSlots 3 = 4 \<and>
       map (map_sum id Acquired) [r1, r2, r3, r4] = [Inr True, Inr True, Inr True, Inr True] \<and>
       map (map_sum id SlotIndex) [r1, r2, r3, r4] = [Inr 1, Inr 2, Inr 3, Inr 0] \<and>
       ZCARD (slotKeys st4 1) = 4 \<and>
       map (slotOccupied st4 1000 1) [0, 1, 2, 3] = [True, True, True, True])"
  by code_simp

text \<open>
  C2. The claim says that a 4th concurrent request of the same session for the same slot
  fails. Through \<^verbatim>\<open>AcquireSessionSlot\<close> the light model runs the script with
  \<open>maxParallel = 9999\<close>: the 4th request acquires the slot of the first three, and the owner
  hash counts 4 holders.
\<close>

theorem C2_counterexample:
  "(let c = NewConcurrencyCache 15 0;
        acq = (\<lambda>st. AcquireSessionSlot (Some (redisCache c 1000)) st 1 3 ''a'' ''haiku'' ''req'');
        (r1, st1) = acq emptyStore;
        (r2, st2) = acq st1;
        (r3, st3) = acq st2;
        (r4, st4) = acq st3
    in map (map_sum id Acquired) [r1, r2, r3, r4] = [Inr True, Inr True, Inr True, Inr True] \<and>
       map (map_sum id SlotIndex) [r1, r2, r3, r4] = [Inr 1, Inr 1, Inr 1, Inr 1] \<and>
       map_option h_count (ownerKeys st3 (1, 1)) = Some 3 \<and>
       map_option h_count (ownerKeys st4 (1, 1)) = Some 4)"
  by code_simp

text \<open>
  C2, as the code has it. The bound is the script's argument \<open>maxParallel\<close>: the cache
  method of identity\_cache.go passes \<open>haikuMaxParallel = 3\<close>, \<^verbatim>\<open>AcquireSessionSlot\<close> passes
  9999 for the light model. Through \<^verbatim>\<open>AcquireSessionSlot\<close>, the requests of one session,
  at most 9999 of them, that start with the session unbound and its preferred slot free
  all acquire that slot, which then has the session as its owner and counts them all. On
  the script: from a free slot, of \<open>n\<close> successive requests of one session exactly the first
  \<open>min n maxParallel\<close> acquire the slot and the others fail; on a slot whose owner hash is
  live (a positive count, not expired) a request acquires exactly when it carries the
  owner's session hash and the count is below \<open>maxParallel\<close>, and a request of another
  session fails and changes nothing. Through \<^verbatim>\<open>AcquireSessionSlot\<close>, with any concurrency
  limit, a request of another session, and any request once the slot counts 9999
  holders, never acquires a slot that a session owns, and leaves its owner and count as
  they are.
\<close>

theorem C2_same_session_sharing:
  assumes "0 < ttl"
  shows "(0 < C \<and> C < 2 ^ 61 \<and> t = (\<Sum>b\<leftarrow>s. of_char b) mod CalculateTotalSlots C \<and>
          sessionSlots rst (a, s) = None \<and> ownerKeys rst (a, t) = None \<and>
          ZSCORE (slotKeys rst a) (SlotID t) = None \<and> rids \<noteq> [] \<and> length rids \<le> 9999 \<longrightarrow>
            (let (results, rst') = sessionBurst (redisCache (NewConcurrencyCache m w) now) rst a C s
                                     ''haiku'' rids
             in results = map (\<lambda>rid. Inr \<lparr>Acquired = True, SlotIndex = t,
                                 ReleaseFunc = ReleaseSlotWithSession a t s ''haiku''\<rparr>) rids \<and>
                sessionSlots rst' (a, s) = Some t \<and>
                slotOwner rst' now a t = Some (s, int (length rids)))) \<and>
         (ZSCORE slotKey (SlotID i) = None \<and> 1 \<le> mp \<longrightarrow>
            fst (sameSessionBurst n None slotKey now ttl i s mp rid) =
              replicate (min n (nat mp)) 1 @ replicate (n - nat mp) 0) \<and>
         (0 < h_count h \<and> \<not> (0 < h_expire h \<and> h_expire h < now) \<longrightarrow>
            (fst (acquireSlotWithSessionScript (Some h) slotKey now ttl i s' mp rid) = 1 \<longleftrightarrow>
               s' = h_owner h \<and> h_count h < mp) \<and>
            (s' \<noteq> h_owner h \<longrightarrow>
               acquireSlotWithSessionScript (Some h) slotKey now ttl i s' mp rid =
                 (0, Some h, slotKey))) \<and>
         (0 \<le> i \<and> slotOwner rst now a i = Some (s0, k) \<and>
          (s' \<noteq> s0 \<or> 9999 \<le> k) \<longrightarrow>
            (let (res, rst') = AcquireSessionSlot (Some (redisCache c now)) rst a D s' ''haiku'' rid
             in slotOwner rst' now a i = Some (s0, k) \<and>
                (\<forall>r. res = Inr r \<and> Acquired r \<longrightarrow> SlotIndex r \<noteq> i))) \<and>
         AcquireSlotWithSession c now st a i s rid =
           runAcquireSlotWithSessionScript c now st a i s 3 rid \<and>
         maxParallelFor ''haiku'' = 9999"
proof -
  have sched: "0 < C \<and> C < 2 ^ 61 \<and> t = (\<Sum>b\<leftarrow>s. of_char b) mod CalculateTotalSlots C \<and>
          sessionSlots rst (a, s) = None \<and> ownerKeys rst (a, t) = None \<and>
          ZSCORE (slotKeys rst a) (SlotID t) = None \<and> rids \<noteq> [] \<and> length rids \<le> 9999 \<longrightarrow>
            (let (results, rst') = sessionBurst (redisCache (NewConcurrencyCache m w) now) rst a C s
                                     ''haiku'' rids
             in results = map (\<lambda>rid. Inr \<lparr>Acquired = True, SlotIndex = t,
                                 ReleaseFunc = ReleaseSlotWithSession a t s ''haiku''\<rparr>) rids \<and>
                sessionSlots rst' (a, s) = Some t \<and>
                slotOwner rst' now a t = Some (s, int (length rids)))"
  proof
    assume a: "0 < C \<and> C < 2 ^ 61 \<and> t = (\<Sum>b\<leftarrow>s. of_char b) mod CalculateTotalSlots C \<and>
          sessionSlots rst (a, s) = None \<and> ownerKeys rst (a, t) = None \<and>
          ZSCORE (slotKeys rst a) (SlotID t) = None \<and> rids \<noteq> [] \<and> length rids \<le> 9999"
    then have C: "0 < C" and T: "0 < CalculateTotalSlots C"
      using CalculateTotalSlots_ge2 [of C] by simp_all
    have rng: "slotRange (CalculateTotalSlots C) ''haiku'' = (0, CalculateTotalSlots C)"
      by (simp add: slotRange_def)
    have t: "t = 0 + hashToSlotIndex s (CalculateTotalSlots C - 0)"
      using a T by (simp add: hashToSlotIndex_sum)
    have n: "int (length rids) \<le> maxParallelFor ''haiku''"
      using a by (simp add: maxParallelFor_def)
    from sessionBurst_free [OF C rng T NewConcurrencyCache_ttl, of rst a s rids m w now] a n
    show "(let (results, rst') = sessionBurst (redisCache (NewConcurrencyCache m w) now) rst a C s
                                     ''haiku'' rids
             in results = map (\<lambda>rid. Inr \<lparr>Acquired = True, SlotIndex = t,
                                 ReleaseFunc = ReleaseSlotWithSession a t s ''haiku''\<rparr>) rids \<and>
                sessionSlots rst' (a, s) = Some t \<and>
                slotOwner rst' now a t = Some (s, int (length rids)))"
      unfolding t by auto
  qed
  have burst: "ZSCORE slotKey (SlotID i) = None \<and> 1 \<le> mp \<longrightarrow>
            fst (sameSessionBurst n None slotKey now ttl i s mp rid) =
              replicate (min n (nat mp)) 1 @ replicate (n - nat mp) 0"
    using burst_free [OF assms] by blast
  have live: "0 < h_count h \<and> \<not> (0 < h_expire h \<and> h_expire h < now) \<longrightarrow>
            (fst (acquireSlotWithSessionScript (Some h) slotKey now ttl i s' mp rid) = 1 \<longleftrightarrow>
               s' = h_owner h \<and> h_count h < mp) \<and>
            (s' \<noteq> h_owner h \<longrightarrow>
               acquireSlotWithSessionScript (Some h) slotKey now ttl i s' mp rid =
                 (0, Some h, slotKey))"
  proof
    assume a: "0 < h_count h \<and> \<not> (0 < h_expire h \<and> h_expire h < now)"
    then have "acquireSlotWithSessionScript (Some h) slotKey now ttl i s' mp rid =
     (if s' = h_owner h \<and> h_count h < mp then
        (1, EXPIRE_h (Some (h\<lparr>h_count := h_count h + 1, h_expire := now + ttl\<rparr>)) ttl,
         EXPIRE (ZADD slotKey now (SlotID i)) ttl)
      else (0, Some h, slotKey))"
      by (intro script_live_owner) auto
    then show "(fst (acquireSlotWithSessionScript (Some h) slotKey now ttl i s' mp rid) = 1 \<longleftrightarrow>
               s' = h_owner h \<and> h_count h < mp) \<and>
            (s' \<noteq> h_owner h \<longrightarrow>
               acquireSlotWithSessionScript (Some h) slotKey now ttl i s' mp rid =
                 (0, Some h, slotKey))"
      by simp
  qed
  have other: "0 \<le> i \<and> slotOwner rst now a i = Some (s0, k) \<and>
          (s' \<noteq> s0 \<or> 9999 \<le> k) \<longrightarrow>
            (let (res, rst') = AcquireSessionSlot (Some (redisCache c now)) rst a D s' ''haiku'' rid
             in slotOwner rst' now a i = Some (s0, k) \<and>
                (\<forall>r. res = Inr r \<and> Acquired r \<longrightarrow> SlotIndex r \<noteq> i))"
  proof
    assume a: "0 \<le> i \<and> slotOwner rst now a i = Some (s0, k) \<and> (s' \<noteq> s0 \<or> 9999 \<le> k)"
    obtain res rst' where run:
      "AcquireSessionSlot (Some (redisCache c now)) rst a D s' ''haiku'' rid = (res, rst')"
      by (cases "AcquireSessionSlot (Some (redisCache c now)) rst a D s' ''haiku'' rid")
    have "slotOwner rst' now a i = Some (s0, k) \<and>
                (\<forall>r. res = Inr r \<and> Acquired r \<longrightarrow> SlotIndex r \<noteq> i)"
    proof (cases "0 < D")
      case True
      from a have "s' \<noteq> s0 \<or> maxParallelFor ''haiku'' \<le> k"
        by (auto simp: maxParallelFor_def)
      from redis_no_share [where now = now and i = i and ?s0.0 = s0 and k = k, OF _ this True run] a
      show ?thesis by simp
    next
      case False
      with run have "res = Inr \<lparr>Acquired = True, SlotIndex = -1, ReleaseFunc = NopRelease\<rparr>"
        and "rst' = rst"
        by (simp_all add: AcquireSessionSlot_def)
      with a show ?thesis by auto
    qed
    then show "(let (res, rst') = AcquireSessionSlot (Some (redisCache c now)) rst a D s' ''haiku'' rid
             in slotOwner rst' now a i = Some (s0, k) \<and>
                (\<forall>r. res = Inr r \<and> Acquired r \<longrightarrow> SlotIndex r \<noteq> i))"
      unfolding run by simp
  qed
  have wrap: "AcquireSlotWithSession c now st a i s rid =
           runAcquireSlotWithSessionScript c now st a i s 3 rid"
    by (simp add: AcquireSlotWithSession_def haikuMaxParallel_def)
  have mp: "maxParallelFor ''haiku'' = 9999" by (simp add: maxParallelFor_def)
  from sched burst live other wrap mp show ?thesis by (intro conjI)
qed

theorem C2_same_session_sharing_witness:
  "(let cache = redisCache (NewConcurrencyCache 15 0) 1000;
        burst = sessionBurst cache emptyStore 1 3 ''a'' ''haiku'' [''r1'', ''r2'', ''r3'', ''r4'', ''r5''];
        other = AcquireSessionSlot (Some cache) (snd burst) 1 3 ''e'' ''haiku'' ''r6''
    in (0::int) < 900 \<and> (0::int) < 3 \<and> (3::int) < 2 ^ 61 \<and>
       (1::int) = (\<Sum>b\<leftarrow>''a''. of_char b) mod CalculateTotalSlots 3 \<and>
       sessionSlots emptyStore (1, ''a'') = None \<and> ownerKeys emptyStore (1, 1) = None \<and>
       ZSCORE (slotKeys emptyStore 1) (SlotID 1) = None \<and>
       fst burst = replicate 5 (Inr \<lparr>Acquired = True, SlotIndex = 1,
                                     ReleaseFunc = ReleaseSlotWithSession 1 1 ''a'' ''haiku''\<rparr>) \<and>
       slotOwner (snd burst) 1000 1 1 = Some (''a'', 5) \<and>
       ''e'' \<noteq> ''a'' \<and>
       fst other = Inr \<lparr>Acquired = True, SlotIndex = 2,
                        ReleaseFunc = ReleaseSlotWithSession 1 2 ''e'' ''haiku''\<rparr> \<and>
       slotOwner (snd other) 1000 1 1 = Some (''a'', 5)) \<and>
   ZSCORE \<lparr>zmembers = [], zttl = None\<rparr> (SlotID 1) = None \<and>
   fst (sameSessionBurst 5 None \<lparr>zmembers = [], zttl = None\<rparr> 1000 900 1 ''a'' 3 ''req'') = [1, 1, 1, 0, 0] \<and>
   acquireSlotWithSessionScript
     (Some \<lparr>h_owner = ''a'', h_count = 1, h_expire = 1900, h_ttl = Some 900\<rparr>)
     \<lparr>zmembers = [(SlotID 1, 1000)], zttl = Some 900\<rparr> 1000 900 1 ''b'' 3 ''req'' =
     (0, Some \<lparr>h_owner = ''a'', h_count = 1, h_expire = 1900, h_ttl = Some 900\<rparr>,
      \<lparr>zmembers = [(SlotID 1, 1000)], zttl = Some 900\<rparr>)"
proof -
  let ?cache = "redisCache (NewConcurrencyCache 15 0) 1000"
  let ?rids = "[''r1'', ''r2'', ''r3'', ''r4'', ''r5'']"
  let ?h = "\<lparr>h_owner = ''a'', h_count = 1, h_expire = 1900, h_ttl = Some 900\<rparr>"
  let ?z = "\<lparr>zmembers = [(SlotID 1, 1000 :: int)], zttl = Some 900\<rparr>"
  define burst where "burst = sessionBurst ?cache emptyStore 1 3 ''a'' ''haiku'' ?rids"
  define other where "other = AcquireSessionSlot (Some ?cache) (snd burst) 1 3 ''e'' ''haiku'' ''r6''"
  have t: "(1::int) = (\<Sum>b\<leftarrow>''a''. of_char b) mod CalculateTotalSlots 3"
    by (simp add: CalculateTotalSlots_def int64_def quo_def)
  have empty: "sessionSlots emptyStore (1, ''a'') = None" "ownerKeys emptyStore (1, 1) = None"
    "ZSCORE (slotKeys emptyStore 1) (SlotID 1) = None"
    by (simp_all add: emptyStore_def ZSCORE_def)
  have "(let (results, rst') = burst
         in results = map (\<lambda>rid. Inr \<lparr>Acquired = True, SlotIndex = 1,
                             ReleaseFunc = ReleaseSlotWithSession 1 1 ''a'' ''haiku''\<rparr>) ?rids \<and>
            sessionSlots rst' (1, ''a'') = Some 1 \<and>
            slotOwner rst' 1000 1 1 = Some (''a'', int (length ?rids)))"
    unfolding burst_def
    using t empty
    by (intro C2_same_session_sharing [where ttl = 900 and C = 3 and t = 1 and s = "''a''"
        and rst = emptyStore and a = 1 and rids = ?rids and m = 15 and w = 0 and now = 1000,
        THEN conjunct1, THEN mp]) simp_all
  then have sched: "fst burst = replicate 5 (Inr \<lparr>Acquired = True, SlotIndex = 1,
                                     ReleaseFunc = ReleaseSlotWithSession 1 1 ''a'' ''haiku''\<rparr>) \<and>
      slotOwner (snd burst) 1000 1 1 = Some (''a'', 5)"
    by (simp add: split_def numeral_eq_Suc)
  have "(let (res, rst') = other
         in slotOwner rst' 1000 1 1 = Some (''a'', 5) \<and>
            (\<forall>r. res = Inr r \<and> Acquired r \<longrightarrow> SlotIndex r \<noteq> 1))"
    unfolding other_def
    using sched
    by (intro C2_same_session_sharing [where ttl = 900 and D = 3 and rst = "snd burst" and now = 1000
        and a = 1 and i = 1 and ?s0.0 = "''a''" and k = 5 and s' = "''e''"
        and c = "NewConcurrencyCache 15 0" and rid = "''r6''",
        THEN conjunct2, THEN conjunct2, THEN conjunct2, THEN conjunct1, THEN mp]) simp_all
  then have owner: "slotOwner (snd other) 1000 1 1 = Some (''a'', 5)"
    by (simp add: split_def)
  have slot2: "fst other = Inr \<lparr>Acquired = True, SlotIndex = 2,
                        ReleaseFunc = ReleaseSlotWithSession 1 2 ''e'' ''haiku''\<rparr>"
    unfolding other_def burst_def by code_simp
  have free: "ZSCORE \<lparr>zmembers = [], zttl = None\<rparr> (SlotID 1) = None"
    by (simp add: ZSCORE_def)
  have burst1: "fst (sameSessionBurst 5 None \<lparr>zmembers = [], zttl = None\<rparr> 1000 900 1 ''a'' 3 ''req'') =
      [1, 1, 1, 0, 0]"
    using free C2_same_session_sharing [where ttl = 900 and slotKey = "\<lparr>zmembers = [], zttl = None\<rparr>"
        and i = 1 and mp = 3 and n = 5 and now = 1000 and s = "''a''" and rid = "''req''",
        THEN conjunct2, THEN conjunct1]
    by (simp add: numeral_eq_Suc)
  have script: "acquireSlotWithSessionScript (Some ?h) ?z 1000 900 1 ''b'' 3 ''req'' = (0, Some ?h, ?z)"
    using C2_same_session_sharing [where ttl = 900 and slotKey = ?z and i = 1 and mp = 3
        and now = 1000 and rid = "''req''" and h = ?h and s' = "''b''",
        THEN conjunct2, THEN conjunct2, THEN conjunct1]
    by simp
  have ne: "''e'' \<noteq> ''a''" by simp
  from t empty sched owner slot2 free burst1 script ne show ?thesis
    unfolding Let_def burst_def [symmetric] other_def [symmetric] by (intro conjI) simp_all
qed

text \<open>
  C3. The claim says that with \<open>maxRPM = 0\<close> the RPM wait is skipped whatever the current
  rate. The code takes 0 as "use the default": at 4 requests in the window, with the oldest
  one 3 seconds old, the request waits 57 seconds.
\<close>

theorem C3_counterexample:
  "WaitForRPMSlot False 0 (Inr 4) (Inr 1000000) 1003000 = WaitWithPing 57000"
  by (simp add: WaitForRPMSlot_def defaultAccountMaxRPM_def rpmWindowSeconds_def int64_def Let_def)

text \<open>
  C3, as the code has it: with \<open>maxRPM \<le> 0\<close> the function behaves exactly as with the
  default limit \<open>defaultAccountMaxRPM = 4\<close>. It returns without waiting when the service is
  nil, when the RPM lookup fails, when the current RPM is below 4, and when the oldest
  request of the window has already left it. Otherwise it waits: 5 seconds when the time
  of the oldest request is unknown (lookup error, or 0), else until the oldest request
  leaves the 60-second window, at most 60 seconds. Clock readings are milliseconds between
  0 and \<open>2^62\<close>.
\<close>

theorem C3_default_limit:
  assumes "maxRPM \<le> 0"
  shows "WaitForRPMSlot nil maxRPM rpm oldest nowMs = WaitForRPMSlot nil 4 rpm oldest nowMs \<and>
         WaitForRPMSlot True maxRPM rpm oldest nowMs = ReturnNil \<and>
         WaitForRPMSlot False maxRPM (Inl e) oldest nowMs = ReturnNil \<and>
         (currentRPM < 4 \<longrightarrow>
            WaitForRPMSlot False maxRPM (Inr currentRPM) oldest nowMs = ReturnNil) \<and>
         (4 \<le> currentRPM \<longrightarrow>
            WaitForRPMSlot False maxRPM (Inr currentRPM) (Inl e') nowMs = WaitWithPing 5000 \<and>
            WaitForRPMSlot False maxRPM (Inr currentRPM) (Inr 0) nowMs = WaitWithPing 5000) \<and>
         (4 \<le> currentRPM \<and> 0 < t \<and> t < 2 ^ 62 \<and> 0 \<le> nowMs \<and> nowMs < 2 ^ 62 \<longrightarrow>
            WaitForRPMSlot False maxRPM (Inr currentRPM) (Inr t) nowMs =
              (if t + 60000 \<le> nowMs then ReturnNil
               else WaitWithPing (min 60000 (t + 60000 - nowMs))))"
proof -
  have same: "WaitForRPMSlot nil maxRPM rpm oldest nowMs = WaitForRPMSlot nil 4 rpm oldest nowMs"
    using assms by (simp add: WaitForRPMSlot_def defaultAccountMaxRPM_def)
  have nil: "WaitForRPMSlot True maxRPM rpm oldest nowMs = ReturnNil"
    by (simp add: WaitForRPMSlot_def)
  have err: "WaitForRPMSlot False maxRPM (Inl e) oldest nowMs = ReturnNil"
    by (simp add: WaitForRPMSlot_def)
  have below: "currentRPM < 4 \<longrightarrow>
            WaitForRPMSlot False maxRPM (Inr currentRPM) oldest nowMs = ReturnNil"
    using assms by (simp add: WaitForRPMSlot_def defaultAccountMaxRPM_def)
  have unknown: "4 \<le> currentRPM \<longrightarrow>
            WaitForRPMSlot False maxRPM (Inr currentRPM) (Inl e') nowMs = WaitWithPing 5000 \<and>
            WaitForRPMSlot False maxRPM (Inr currentRPM) (Inr 0) nowMs = WaitWithPing 5000"
    using assms by (simp add: WaitForRPMSlot_def defaultAccountMaxRPM_def)
  have known: "4 \<le> currentRPM \<and> 0 < t \<and> t < 2 ^ 62 \<and> 0 \<le> nowMs \<and> nowMs < 2 ^ 62 \<longrightarrow>
            WaitForRPMSlot False maxRPM (Inr currentRPM) (Inr t) nowMs =
              (if t + 60000 \<le> nowMs then ReturnNil
               else WaitWithPing (min 60000 (t + 60000 - nowMs)))"
  proof
    assume a: "4 \<le> currentRPM \<and> 0 < t \<and> t < 2 ^ 62 \<and> 0 \<le> nowMs \<and> nowMs < 2 ^ 62"
    then have e: "int64 (t + 60000) = t + 60000" by (intro int64_id) simp_all
    from a have w: "int64 (t + 60000 - nowMs) = t + 60000 - nowMs" by (intro int64_id) simp_all
    from a assms have "WaitForRPMSlot False maxRPM (Inr currentRPM) (Inr t) nowMs =
        (if int64 (int64 (t + 60000) - nowMs) \<le> 0 then ReturnNil
         else WaitWithPing (if int64 (int64 (t + 60000) - nowMs) > 60000 then 60000
                            else int64 (int64 (t + 60000) - nowMs)))"
      by (simp add: WaitForRPMSlot_def defaultAccountMaxRPM_def rpmWindowSeconds_def Let_def)
    then show "WaitForRPMSlot False maxRPM (Inr currentRPM) (Inr t) nowMs =
              (if t + 60000 \<le> nowMs then ReturnNil
               else WaitWithPing (min 60000 (t + 60000 - nowMs)))"
      unfolding e w by (simp add: min_def)
  qed
  from same nil err below unknown known show ?thesis by (intro conjI)
qed

theorem C3_default_limit_witness:
  "(0::int) \<le> 0 \<and>
   WaitForRPMSlot False 0 (Inr 4) (Inl CacheError) 1003000 = WaitWithPing 5000 \<and>
   WaitForRPMSlot False 0 (Inr 4) (Inr 1000000) 1003000 = WaitWithPing 57000 \<and>
   WaitForRPMSlot False 0 (Inr 4) (Inr 1000000) 1060000 = ReturnNil \<and>
   WaitForRPMSlot False 0 (Inr 4) (Inr 1000000) 900000 = WaitWithPing 60000"
proof -
  have h: "(0::int) \<le> 0" by simp
  have unknown: "WaitForRPMSlot False 0 (Inr 4) (Inl CacheError) 1003000 = WaitWithPing 5000"
    using C3_default_limit [OF h, where currentRPM = 4 and e' = CacheError and nowMs = 1003000,
        THEN conjunct2, THEN conjunct2, THEN conjunct2, THEN conjunct2, THEN conjunct1]
    by simp
  have known: "WaitForRPMSlot False 0 (Inr 4) (Inr 1000000) n =
      (if 1000000 + 60000 \<le> n then ReturnNil else WaitWithPing (min 60000 (1000000 + 60000 - n)))"
    if "0 \<le> n" and "n < 2 ^ 62" for n
    using that C3_default_limit [OF h, where currentRPM = 4 and t = 1000000 and nowMs = n,
        THEN conjunct2, THEN conjunct2, THEN conjunct2, THEN conjunct2, THEN conjunct2]
    by simp
  from h unknown known [of 1003000] known [of 1060000] known [of 900000]
  show ?thesis by simp
qed

text \<open>
  C4. Model-pool isolation, for the categories opus and sonnet and every account with a
  positive concurrency limit (\<open>rng\<close> is the category's range of
  \<^verbatim>\<open>CalculateModelSlotRange\<close>, \<open>sz\<close> its size, \<open>target\<close> the preferred slot). The range
  is not empty as long as the slot total is computed without overflow (\<open>C < 2^61\<close>).
  Over any cache, an acquired slot index lies in the range; every slot the function asks
  the cache for lies in the range and is the session's bound slot or a slot
  \<open>rangeStart + ((byte sum mod sz + k) mod sz)\<close> with \<open>0 \<le> k < sz\<close>, always with
  \<open>maxParallel = 1\<close>; without a bound slot in the range the first slot asked for is the
  preferred slot \<open>rangeStart + (byte sum mod sz)\<close>; and on the store of the scripts, when
  every slot of the range is occupied the result is not acquired (with the preferred slot
  as its index) and the store is unchanged. Should the range be empty, no slot is asked for
  and nothing is acquired.
\<close>

theorem C4_model_pool_isolation:
  assumes "cat = ''opus'' \<or> cat = ''sonnet''" and "0 < C"
  shows "let T = CalculateTotalSlots C;
             rng = (if cat = ''opus'' then fst (CalculateModelSlotRange T)
                    else snd (CalculateModelSlotRange T));
             sz = End rng - Start rng;
             target = Start rng + (\<Sum>b\<leftarrow>s. of_char b) mod sz;
             asked = snd (snd (AcquireSessionSlot (Some (traced cache)) (st, []) a C s cat rid))
         in (C < 2 ^ 61 \<longrightarrow> 0 < sz) \<and>
            (\<forall>r st'. AcquireSessionSlot (Some cache) st a C s cat rid = (Inr r, st') \<and> Acquired r \<longrightarrow>
               Start rng \<le> SlotIndex r \<and> SlotIndex r < End rng) \<and>
            (\<forall>p \<in> set asked. snd p = 1 \<and> Start rng \<le> fst p \<and> fst p < End rng \<and>
               (iGetSessionSlot cache st a s = Inr (fst p) \<or>
                (\<exists>k. 0 \<le> k \<and> k < sz \<and>
                     fst p = Start rng + ((\<Sum>b\<leftarrow>s. of_char b) mod sz + k) mod sz))) \<and>
            (0 < sz \<and>
             \<not> (\<exists>b. iGetSessionSlot cache st a s = Inr b \<and> Start rng \<le> b \<and> b < End rng) \<longrightarrow>
               (\<exists>ext. asked = (target, 1) # ext)) \<and>
            (0 < sz \<and> (\<forall>i. Start rng \<le> i \<and> i < End rng \<longrightarrow> slotOccupied rst now a i) \<longrightarrow>
               AcquireSessionSlot (Some (redisCache c now)) rst a C s cat rid =
                 (Inr \<lparr>Acquired = False, SlotIndex = target, ReleaseFunc = NilRelease\<rparr>, rst)) \<and>
            (sz \<le> 0 \<longrightarrow> asked = [] \<and>
               AcquireSessionSlot (Some cache) st a C s cat rid =
                 (Inr \<lparr>Acquired = False, SlotIndex = -1, ReleaseFunc = NilRelease\<rparr>, st))"
proof -
  define T where "T = CalculateTotalSlots C"
  define rng where "rng = (if cat = ''opus'' then fst (CalculateModelSlotRange T)
                           else snd (CalculateModelSlotRange T))"
  define sz where "sz = End rng - Start rng"
  define target where "target = Start rng + (\<Sum>b\<leftarrow>s. of_char b) mod sz"
  define asked where
    "asked = snd (snd (AcquireSessionSlot (Some (traced cache)) (st, []) a C s cat rid))"
  have range: "slotRange (CalculateTotalSlots C) cat = (Start rng, End rng)"
    using assms(1) by (auto simp: rng_def T_def slotRange_opus slotRange_sonnet)
  have mp: "maxParallelFor cat = 1"
    using assms(1) by (auto simp: maxParallelFor_def)
  have lt: "Start rng < End rng" if "0 < sz"
    using that by (simp add: sz_def)
  have hash: "hashToSlotIndex s sz = (\<Sum>b\<leftarrow>s. of_char b) mod sz" if "0 < sz"
    using that by (simp add: hashToSlotIndex_sum)
  obtain res stl where run:
    "AcquireSessionSlot (Some (traced cache)) (st, []) a C s cat rid = (res, stl)"
    by (cases "AcquireSessionSlot (Some (traced cache)) (st, []) a C s cat rid")
  then have asked: "asked = snd stl" by (simp add: asked_def)
  have empty: "AcquireSessionSlot (Some ch) x a C s cat rid =
      (Inr \<lparr>Acquired = False, SlotIndex = -1, ReleaseFunc = NilRelease\<rparr>, x)"
    if "sz \<le> 0" for ch :: "'c ConcurrencyCache" and x
    using that by (intro AcquireSessionSlot_empty [OF assms(2) range]) (simp add: sz_def)
  have asked_empty: "asked = []" if "sz \<le> 0"
    using empty [OF that, of "traced cache" "(st, [])"] by (simp add: asked_def)
  have 0: "C < 2 ^ 61 \<longrightarrow> 0 < sz"
  proof
    assume "C < 2 ^ 61"
    from slotRange_bounds [OF CalculateTotalSlots_ge2 [OF assms(2) this] range]
    show "0 < sz" by (simp add: sz_def)
  qed
  have 1: "\<forall>r st'. AcquireSessionSlot (Some cache) st a C s cat rid = (Inr r, st') \<and> Acquired r \<longrightarrow>
               Start rng \<le> SlotIndex r \<and> SlotIndex r < End rng"
  proof (intro allI impI, elim conjE)
    fix r st'
    assume r: "AcquireSessionSlot (Some cache) st a C s cat rid = (Inr r, st')" and acq: "Acquired r"
    show "Start rng \<le> SlotIndex r \<and> SlotIndex r < End rng"
    proof (cases "0 < sz")
      case True
      from AcquireSessionSlot_result [OF r assms(2) range lt [OF True]] acq
      show ?thesis by simp
    next
      case False
      then have "sz \<le> 0" by simp
      from empty [OF this, of cache st] r acq show ?thesis by simp
    qed
  qed
  have 2: "\<forall>p \<in> set asked. snd p = 1 \<and> Start rng \<le> fst p \<and> fst p < End rng \<and>
               (iGetSessionSlot cache st a s = Inr (fst p) \<or>
                (\<exists>k. 0 \<le> k \<and> k < sz \<and>
                     fst p = Start rng + ((\<Sum>b\<leftarrow>s. of_char b) mod sz + k) mod sz))"
  proof (cases "0 < sz")
    case True
    show ?thesis
      using AcquireSessionSlot_trace(1) [OF run assms(2) range lt [OF True]]
      unfolding asked mp sz_def [symmetric] hash [OF True] .
  next
    case False
    then have "asked = []" using asked_empty by simp
    then show ?thesis by simp
  qed
  have 3: "0 < sz \<and>
           \<not> (\<exists>b. iGetSessionSlot cache st a s = Inr b \<and> Start rng \<le> b \<and> b < End rng) \<longrightarrow>
               (\<exists>ext. asked = (target, 1) # ext)"
  proof
    assume a: "0 < sz \<and>
           \<not> (\<exists>b. iGetSessionSlot cache st a s = Inr b \<and> Start rng \<le> b \<and> b < End rng)"
    then have pos: "0 < sz" by simp
    from a AcquireSessionSlot_trace(2) [OF run assms(2) range lt [OF pos]]
    show "\<exists>ext. asked = (target, 1) # ext"
      unfolding asked mp sz_def [symmetric] hash [OF pos] target_def by blast
  qed
  have 4: "0 < sz \<and> (\<forall>i. Start rng \<le> i \<and> i < End rng \<longrightarrow> slotOccupied rst now a i) \<longrightarrow>
               AcquireSessionSlot (Some (redisCache c now)) rst a C s cat rid =
                 (Inr \<lparr>Acquired = False, SlotIndex = target, ReleaseFunc = NilRelease\<rparr>, rst)"
  proof
    assume a: "0 < sz \<and> (\<forall>i. Start rng \<le> i \<and> i < End rng \<longrightarrow> slotOccupied rst now a i)"
    then have pos: "0 < sz"
      and occ: "\<forall>i. Start rng \<le> i \<and> i < End rng \<longrightarrow> slotOccupied rst now a i" by blast+
    from AcquireSessionSlot_all_occupied [OF assms(2) range lt [OF pos] mp occ, of c s rid]
    show "AcquireSessionSlot (Some (redisCache c now)) rst a C s cat rid =
                 (Inr \<lparr>Acquired = False, SlotIndex = target, ReleaseFunc = NilRelease\<rparr>, rst)"
      unfolding sz_def [symmetric] hash [OF pos] target_def .
  qed
  have 5: "sz \<le> 0 \<longrightarrow> asked = [] \<and>
               AcquireSessionSlot (Some cache) st a C s cat rid =
                 (Inr \<lparr>Acquired = False, SlotIndex = -1, ReleaseFunc = NilRelease\<rparr>, st)"
    using asked_empty empty [of cache st] by blast
  from 0 1 2 3 4 5 show ?thesis
    unfolding Let_def T_def [symmetric] rng_def [symmetric] sz_def [symmetric]
      target_def [symmetric] asked_def [symmetric]
    by blast
qed

theorem C4_model_pool_isolation_witness:
  "(''sonnet'' = ''opus'' \<or> ''sonnet'' = ''sonnet'') \<and> (0::int) < 6 \<and>
   CalculateModelSlotRange (CalculateTotalSlots 6) = (\<lparr>Start = 0, End = 4\<rparr>, \<lparr>Start = 4, End = 8\<rparr>) \<and>
   fst (AcquireSessionSlot (Some (redisCache (NewConcurrencyCache 15 0) 1000)) emptyStore 1 6
          ''a'' ''sonnet'' ''req'') =
     Inr \<lparr>Acquired = True, SlotIndex = 5, ReleaseFunc = ReleaseSlotWithSession 1 5 ''a'' ''sonnet''\<rparr> \<and>
   snd (snd (AcquireSessionSlot (Some (traced (redisCache (NewConcurrencyCache 15 0) 1000)))
          (emptyStore, []) 1 6 ''a'' ''sonnet'' ''req'')) = [(5, 1)] \<and>
   (let full = \<lparr>slotKeys = (\<lambda>_. \<lparr>zmembers = [(SlotID 4, 990), (SlotID 5, 990), (SlotID 6, 990),
                                             (SlotID 7, 990)], zttl = Some 890\<rparr>),
                 ownerKeys = (\<lambda>_. None), sessionSlots = (\<lambda>_. None)\<rparr>
    in AcquireSessionSlot (Some (redisCache (NewConcurrencyCache 15 0) 1000)) full 1 6
         ''a'' ''sonnet'' ''req'' =
       (Inr \<lparr>Acquired = False, SlotIndex = 5, ReleaseFunc = NilRelease\<rparr>, full)) \<and>
   (0::int) < 4611686018427387904 \<and>
   CalculateModelSlotRange (CalculateTotalSlots 4611686018427387904) =
     (\<lparr>Start = 0, End = 0\<rparr>, \<lparr>Start = 0, End = 0\<rparr>) \<and>
   AcquireSessionSlot (Some (redisCache (NewConcurrencyCache 15 0) 1000)) emptyStore 1
       4611686018427387904 ''a'' ''sonnet'' ''req'' =
     (Inr \<lparr>Acquired = False, SlotIndex = -1, ReleaseFunc = NilRelease\<rparr>, emptyStore)"
proof -
  let ?c = "redisCache (NewConcurrencyCache 15 0) 1000"
  let ?full = "\<lparr>slotKeys = (\<lambda>_. \<lparr>zmembers = [(SlotID 4, 990), (SlotID 5, 990), (SlotID 6, 990),
                                             (SlotID 7, 990 :: int)], zttl = Some 890\<rparr>),
                 ownerKeys = (\<lambda>_. None), sessionSlots = (\<lambda>_. None)\<rparr>"
  have rng: "CalculateModelSlotRange (CalculateTotalSlots 6) =
      (\<lparr>Start = 0, End = 4\<rparr>, \<lparr>Start = 4, End = 8\<rparr>)"
    by (simp add: CalculateTotalSlots_exact CalculateModelSlotRange_def)
  have occ: "\<forall>i. 4 \<le> i \<and> i < 8 \<longrightarrow> slotOccupied ?full 1000 1 i"
  proof (intro allI impI)
    fix i :: int assume "4 \<le> i \<and> i < 8"
    then have "i = 4 \<or> i = 5 \<or> i = 6 \<or> i = 7" by presburger
    then show "slotOccupied ?full 1000 1 i"
      by (auto simp: slotOccupied_def ZSCORE_def)
  qed
  have hash: "(\<Sum>b\<leftarrow>''a''. of_char b) mod (4::int) = 1" by simp
  have full: "AcquireSessionSlot (Some ?c) ?full 1 6 ''a'' ''sonnet'' ''req'' =
       (Inr \<lparr>Acquired = False, SlotIndex = 5, ReleaseFunc = NilRelease\<rparr>, ?full)"
    using C4_model_pool_isolation [where cat = "''sonnet''" and C = 6 and s = "''a''"
        and rst = ?full and now = 1000 and a = 1 and c = "NewConcurrencyCache 15 0"
        and rid = "''req''" and cache = ?c and st = emptyStore] occ hash
    by (simp add: Let_def rng)
  have acq: "fst (AcquireSessionSlot (Some ?c) emptyStore 1 6 ''a'' ''sonnet'' ''req'') =
     Inr \<lparr>Acquired = True, SlotIndex = 5, ReleaseFunc = ReleaseSlotWithSession 1 5 ''a'' ''sonnet''\<rparr>"
    by code_simp
  have asked: "snd (snd (AcquireSessionSlot (Some (traced ?c)) (emptyStore, []) 1 6
          ''a'' ''sonnet'' ''req'')) = [(5, 1)]"
    by code_simp
  have wrapped: "CalculateModelSlotRange (CalculateTotalSlots 4611686018427387904) =
      (\<lparr>Start = 0, End = 0\<rparr>, \<lparr>Start = 0, End = 0\<rparr>)"
    by (simp add: CalculateTotalSlots_def int64_def quo_def CalculateModelSlotRange_def)
  have none: "AcquireSessionSlot (Some ?c) emptyStore 1 4611686018427387904 ''a'' ''sonnet'' ''req'' =
     (Inr \<lparr>Acquired = False, SlotIndex = -1, ReleaseFunc = NilRelease\<rparr>, emptyStore)"
    using C4_model_pool_isolation [where cat = "''sonnet''" and C = 4611686018427387904
        and s = "''a''" and a = 1 and rid = "''req''" and cache = ?c and st = emptyStore]
    by (simp add: Let_def wrapped)
  from rng full acq asked wrapped none show ?thesis by (simp add: Let_def)
qed

text \<open>
  C5. acquireScript: the members with score \<open>\<le> now - ttl\<close> are removed first (\<open>live\<close> is
  what remains). If the member id is live its score is refreshed to \<open>now\<close> and the script
  returns 1; otherwise it returns 1 and adds the member with score \<open>now\<close> exactly when the
  number of live members is below \<open>maxConc\<close>, and returns 0 with the cleaned set as it is
  otherwise. Every success sets the key's time-to-live to \<open>ttl\<close>. The sorted set holds each
  member once, and \<open>ttl\<close> is positive (the cache passes \<open>slotTTLSeconds\<close>, at least 60).
\<close>

theorem C5_acquireScript:
  assumes "1 \<le> maxConc" and "0 < ttl" and "distinct (map fst (zmembers key))"
  shows "let live = filter (\<lambda>(m, s). \<not> s \<le> now - ttl) (zmembers key);
             (r, key') = acquireScript key now maxConc ttl mid
         in (r = 1 \<or> r = 0) \<and>
            (r = 1 \<longleftrightarrow> mid \<in> fst ` set live \<or> int (card (fst ` set live)) < maxConc) \<and>
            (r = 1 \<longrightarrow> map_of (zmembers key') = (map_of live)(mid \<mapsto> now) \<and> zttl key' = Some ttl) \<and>
            (r = 0 \<longrightarrow> zmembers key' = live \<and> zttl key' = zttl key) \<and>
            distinct (map fst (zmembers key'))"
proof -
  define live where "live = filter (\<lambda>(m, s). \<not> s \<le> now - ttl) (zmembers key)"
  have dl: "distinct (map fst live)"
    unfolding live_def using assms(3) by (rule distinct_fst_filter)
  have cl: "card (fst ` set live) = length live"
    using dl by (rule keys_card_length)
  have zm: "zmembers (ZREMRANGEBYSCORE key (now - ttl)) = live"
    by (simp add: ZREMRANGEBYSCORE_def znorm_def live_def)
  have zt: "live \<noteq> [] \<Longrightarrow> zttl (ZREMRANGEBYSCORE key (now - ttl)) = zttl key"
    by (simp add: ZREMRANGEBYSCORE_def znorm_def live_def)
  have add: "zmembers (EXPIRE (ZADD k now mid) ttl) = AList.update mid now (zmembers k)"
    "zttl (EXPIRE (ZADD k now mid) ttl) = Some ttl" for k :: "'a zkey"
    using assms(2) by (simp_all add: EXPIRE_def ZADD_def znorm_def)
  have ne: "\<not> int (length live) < maxConc \<Longrightarrow> live \<noteq> []"
    using assms(1) by auto
  have zt': "\<not> int (length live) < maxConc \<Longrightarrow> zttl (ZREMRANGEBYSCORE key (now - ttl)) = zttl key"
    using ne zt by blast
  show ?thesis
    unfolding live_def [symmetric]
    using dl cl zt'
    by (auto simp: acquireScript_def Let_def zm add ZSCORE_def ZCARD_def map_of_keys
        update_conv' distinct_update split: if_splits intro: rev_image_eqI)
qed

theorem C5_witness:
  "(1::int) \<le> 2 \<and> (0::int) < 900 \<and> distinct (map fst [(''a'', 50::int), (''b'', 990)]) \<and>
   acquireScript \<lparr>zmembers = [(''a'', 50), (''b'', 990)], zttl = Some 10\<rparr> 1000 2 900 ''c''
     = (1, \<lparr>zmembers = [(''b'', 990), (''c'', 1000)], zttl = Some 900\<rparr>)"
  using C5_acquireScript [of 2 900 "\<lparr>zmembers = [(''a'', 50), (''b'', 990)], zttl = Some 10\<rparr>" 1000 "''c''"]
  by (simp add: acquireScript_def ZREMRANGEBYSCORE_def ZSCORE_def ZADD_def ZCARD_def EXPIRE_def znorm_def Let_def)

text \<open>
  C6. The claim gives the total \<open>ceil(4C/3)\<close> for every concurrency \<open>C \<ge> 1\<close>. The total is
  computed in 64-bit arithmetic: at \<open>C = 2^62\<close> the product \<open>4C\<close> wraps to 0 and the
  function returns \<open>(0 + 2) / 3 = 0\<close>, while \<open>ceil(4C/3) = 6148914691236517206\<close>.
\<close>

theorem C6_counterexample:
  "(1 :: int) \<le> 4611686018427387904 \<and>
   CalculateTotalSlots 4611686018427387904 = 0 \<and>
   \<lceil>4 * real_of_int 4611686018427387904 / 3\<rceil> = (6148914691236517206 :: int) \<and>
   CalculateTotalSlots 4611686018427387904 \<noteq> \<lceil>4 * real_of_int 4611686018427387904 / 3\<rceil>"
  by (simp add: CalculateTotalSlots_def int64_def quo_def)

text \<open>
  C6, as the code has it. Slot-pool sizing and range split: for every concurrency \<open>C\<close>
  with \<open>1 \<le> C < 2^61\<close> (exactly the limits for which \<open>4C + 2\<close> fits a 64-bit integer) the
  total is \<open>ceil(4C/3)\<close>; for every total \<open>T \<ge> 2\<close> the heavy (opus) range is
  \<open>[0, floor(T/2))\<close> and the medium (sonnet) range is \<open>[floor(T/2), T)\<close>; for \<open>T = 1\<close> both
  are \<open>[0, 1)\<close>; and for every \<open>T \<ge> 1\<close> both ranges are non-empty.
\<close>

theorem C6_slot_sizing:
  "(1 \<le> C \<and> C < 2 ^ 61 \<longrightarrow> CalculateTotalSlots C = \<lceil>4 * real_of_int C / 3\<rceil>) \<and>
   (2 \<le> T \<longrightarrow> CalculateModelSlotRange T =
      (\<lparr>Start = 0, End = \<lfloor>real_of_int T / 2\<rfloor>\<rparr>, \<lparr>Start = \<lfloor>real_of_int T / 2\<rfloor>, End = T\<rparr>)) \<and>
   CalculateModelSlotRange 1 = (\<lparr>Start = 0, End = 1\<rparr>, \<lparr>Start = 0, End = 1\<rparr>) \<and>
   (1 \<le> T \<longrightarrow>
      Start (fst (CalculateModelSlotRange T)) < End (fst (CalculateModelSlotRange T)) \<and>
      Start (snd (CalculateModelSlotRange T)) < End (snd (CalculateModelSlotRange T)))"
proof (intro conjI impI)
  assume "1 \<le> C \<and> C < 2 ^ 61"
  then have C: "0 < C" "C < 2 ^ 61" by simp_all
  have "\<lceil>4 * real_of_int C / 3\<rceil> = (C * 4 + 2) div 3"
  proof (rule ceiling_unique)
    have "3 * ((C * 4 + 2) div 3) = C * 4 + 2 - (C * 4 + 2) mod 3"
      by (simp add: minus_mod_eq_mult_div)
    moreover have "0 \<le> (C * 4 + 2) mod 3" "(C * 4 + 2) mod 3 < 3" by simp_all
    ultimately have lo: "3 * ((C * 4 + 2) div 3) - 3 < 4 * C"
      and hi: "4 * C \<le> 3 * ((C * 4 + 2) div 3)"
      by presburger+
    from lo have "real_of_int (3 * ((C * 4 + 2) div 3) - 3) < real_of_int (4 * C)"
      by (simp only: of_int_less_iff)
    then show "real_of_int ((C * 4 + 2) div 3) - 1 < 4 * real_of_int C / 3" by simp
    from hi have "real_of_int (4 * C) \<le> real_of_int (3 * ((C * 4 + 2) div 3))"
      by (simp only: of_int_le_iff)
    then show "4 * real_of_int C / 3 \<le> real_of_int ((C * 4 + 2) div 3)" by simp
  qed
  with CalculateTotalSlots_exact [OF C] show "CalculateTotalSlots C = \<lceil>4 * real_of_int C / 3\<rceil>"
    by simp
next
  assume T: "2 \<le> T"
  have fl: "\<lfloor>real_of_int T / 2\<rfloor> = T div 2"
    using floor_divide_of_int_eq [of T 2, where ?'a = real] by simp
  from T have "1 \<le> T div 2" "T div 2 < T" by presburger+
  with T show "CalculateModelSlotRange T =
      (\<lparr>Start = 0, End = \<lfloor>real_of_int T / 2\<rfloor>\<rparr>, \<lparr>Start = \<lfloor>real_of_int T / 2\<rfloor>, End = T\<rparr>)"
    by (simp add: CalculateModelSlotRange_def fl Let_def)
next
  show "CalculateModelSlotRange 1 = (\<lparr>Start = 0, End = 1\<rparr>, \<lparr>Start = 0, End = 1\<rparr>)"
    by (simp add: CalculateModelSlotRange_def)
next
  assume T: "1 \<le> T"
  show "Start (fst (CalculateModelSlotRange T)) < End (fst (CalculateModelSlotRange T))"
    using T by (auto simp: CalculateModelSlotRange_def Let_def)
next
  assume T: "1 \<le> T"
  show "Start (snd (CalculateModelSlotRange T)) < End (snd (CalculateModelSlotRange T))"
    using T by (auto simp: CalculateModelSlotRange_def Let_def)
qed

theorem C6_slot_sizing_witness:
  "(1::int) \<le> 3 \<and> (3::int) < 2 ^ 61 \<and> (2::int) \<le> 4 \<and> CalculateTotalSlots 3 = 4 \<and>
   CalculateModelSlotRange 4 = (\<lparr>Start = 0, End = 2\<rparr>, \<lparr>Start = 2, End = 4\<rparr>) \<and>
   Start (snd (CalculateModelSlotRange 4)) < End (snd (CalculateModelSlotRange 4))"
  using C6_slot_sizing [of 3 4] by simp

text \<open>
  C7. Wait-counter round trip. The facts \<open>incrementWait_succeeds_iff\<close>,
  \<open>wait_round_trip\<close>, \<open>decrementWait_unchanged\<close> and \<open>decrementWait_value\<close> above give
  the parts of the claim that hold. The time-to-live is set whenever the incremented value
  is 1 (\<open>incrementWait_ttl\<close>), which is also the case for a key that exists and holds 0:
  after increment, decrement and 600 seconds the key holds 0 with 300 seconds left, and
  the next increment sets its time-to-live to 900 again, although the script's comment
  says the time-to-live is set on first creation only.
\<close>

theorem C7_ttl_reextended:
  "(let k1 = snd (incrementWaitScript None 21 900);
        k2 = snd (decrementWaitScript k1);
        k3 = elapse_w k2 600;
        k4 = snd (incrementWaitScript k3 21 900)
    in k3 = Some \<lparr>wval = 0, wttl = Some 300\<rparr> \<and> k4 = Some \<lparr>wval = 1, wttl = Some 900\<rparr>)"
  by (simp add: incrementWaitScript_def decrementWaitScript_def elapse_w_def GET_def INCR_def
      DECR_def EXPIRE_w_def Let_def)

text \<open>
  C8. Session mutex: acquire succeeds exactly when the key of the pair (account, session
  hash) is absent, then stores the caller's request id, and leaves a held mutex as it is;
  release deletes the key when the stored value is the caller's request id and changes
  nothing otherwise; in every run of acquires, releases and key expiries from the empty
  store each pair has at most one holder, the one stored under the key.
\<close>

theorem C8_session_mutex:
  "(fst (AcquireSessionMutex st a s r) \<longleftrightarrow> st (a, s) = None) \<and>
   (st (a, s) = None \<longrightarrow>
      snd (AcquireSessionMutex st a s r) = st((a, s) \<mapsto> \<lparr>holder = r, mttl = 300\<rparr>)) \<and>
   (st (a, s) \<noteq> None \<longrightarrow> snd (AcquireSessionMutex st a s r) = st) \<and>
   (map_option holder (st (a, s)) = Some r \<longrightarrow> ReleaseSessionMutex st a s r = st((a, s) := None)) \<and>
   (map_option holder (st (a, s)) \<noteq> Some r \<longrightarrow> ReleaseSessionMutex st a s r = st) \<and>
   (\<forall>p. card (snd (mutex_run ops) p) \<le> 1 \<and>
        (\<forall>h \<in> snd (mutex_run ops) p. map_option holder (fst (mutex_run ops) p) = Some h))"
proof -
  have "card (snd (mutex_run ops) p) \<le> 1 \<and>
        (\<forall>h \<in> snd (mutex_run ops) p. map_option holder (fst (mutex_run ops) p) = Some h)" for p
  proof -
    have "snd (mutex_run ops) p =
        (case fst (mutex_run ops) p of None \<Rightarrow> {} | Some k \<Rightarrow> {holder k})"
      using mutex_run_inv [of ops] unfolding mutex_inv_def by blast
    then show ?thesis by (cases "fst (mutex_run ops) p") simp_all
  qed
  then have run: "\<forall>p. card (snd (mutex_run ops) p) \<le> 1 \<and>
        (\<forall>h \<in> snd (mutex_run ops) p. map_option holder (fst (mutex_run ops) p) = Some h)"
    by blast
  have acq: "fst (AcquireSessionMutex st a s r) \<longleftrightarrow> st (a, s) = None"
    by (rule AcquireSessionMutex_iff)
  have free: "st (a, s) = None \<longrightarrow>
      snd (AcquireSessionMutex st a s r) = st((a, s) \<mapsto> \<lparr>holder = r, mttl = 300\<rparr>)"
    by (simp add: AcquireSessionMutex_store)
  have held: "st (a, s) \<noteq> None \<longrightarrow> snd (AcquireSessionMutex st a s r) = st"
    by (simp add: AcquireSessionMutex_store)
  have rel: "map_option holder (st (a, s)) = Some r \<longrightarrow>
      ReleaseSessionMutex st a s r = st((a, s) := None)"
    by (simp add: ReleaseSessionMutex_store)
  have other: "map_option holder (st (a, s)) \<noteq> Some r \<longrightarrow> ReleaseSessionMutex st a s r = st"
  proof
    assume "map_option holder (st (a, s)) \<noteq> Some r"
    then show "ReleaseSessionMutex st a s r = st"
      by (simp only: ReleaseSessionMutex_store if_False)
  qed
  from acq free held rel other run show ?thesis by blast
qed

theorem C8_session_mutex_witness:
  "fst (AcquireSessionMutex (\<lambda>_. None) 1 ''s'' ''r1'') \<and>
   (let ops = [MAcquire 1 ''s'' ''r1'', MAcquire 1 ''s'' ''r2'', MExpire 1 ''s'',
               MAcquire 1 ''s'' ''r2'', MRelease 1 ''s'' ''r1'']
    in snd (mutex_run ops) (1, ''s'') = {''r2''} \<and>
       map_option holder (fst (mutex_run ops) (1, ''s'')) = Some ''r2'')"
  using C8_session_mutex [of "\<lambda>_. None" 1 "''s''" "''r1''"
      "[MAcquire 1 ''s'' ''r1'', MAcquire 1 ''s'' ''r2'', MExpire 1 ''s'',
        MAcquire 1 ''s'' ''r2'', MRelease 1 ''s'' ''r1'']"]
  by (simp add: mutex_run_def AcquireSessionMutex_def acquireSessionMutexScript_def SET_NX_EX_def
      ReleaseSessionMutex_def releaseSessionMutexScript_def Let_def sessionMutexTTLSeconds_def)

text \<open>
  C9. The claim says that on budget exhaustion an upstream 429 becomes the user-visible
  response 429 rate\_limit\_error. A streaming request that had to wait (for a slot, the
  session mutex or the RPM window) has been sent a ping, so its response stream has
  started; with the default budget 3 of the Gemini loop and four accounts that all fail
  over with 429, the loop ends after 3 switches with an SSE error event and no status.
\<close>

theorem C9_counterexample:
  "(let sel = (\<lambda>F. if 1 \<notin> F then Selected 1 else if 2 \<notin> F then Selected 2
                     else if 3 \<notin> F then Selected 3 else if 4 \<notin> F then Selected 4
                     else SelectError ''no available accounts'');
        att = (\<lambda>k a s. (Forward (UpstreamFailoverError 429), True));
        r = failoverLoop True sel att (switchBudget (NewGatewayHandler None) PlatformGemini) 0 {} 0 False
    in switches r = 3 \<and> failedSet r = {1, 2, 3, 4} \<and>
       resp r = SSEErrorEvent ''rate_limit_error'' ''Upstream rate limit exceeded, please retry later'' \<and>
       resp r \<noteq> ErrorResponse 429 ''rate_limit_error'' ''Upstream rate limit exceeded, please retry later'')"
  by code_simp

text \<open>
  C9, as the code has it. An upstream failover error below the budget adds the account to
  the failed set and selects again with that set; at the budget the loop ends with the
  mapping of the last upstream status; any other forwarder error ends the request at
  once. The failed set only grows and holds nothing but what it held and accounts that
  were tried; with a selector that never returns an account of the set it is given, no
  account is tried twice and none that had failed before. The switch count never exceeds
  the budget (at most \<open>m + 1\<close> accounts are tried), and when every attempt fails over the
  loop ends after exactly \<open>m\<close> switches. The default budgets are 10 and 3 (Gemini).
  Upstream 429 maps to rate\_limit\_error, 529 to overloaded\_error, and 401, 403, 500, 502,
  503, 504 to upstream\_error: as a response with status 429, 503 and 502 when the stream
  has not started, as an SSE error event of that type when it has (and the writer is a
  flusher; nothing is written if it is not).
\<close>

theorem C9_failover_budget:
  "(sel failed = Selected acc \<and> att sw acc ss = (Forward (UpstreamFailoverError st), ss') \<and>
    sw < m \<longrightarrow>
      failoverLoop fl sel att m sw failed lst ss =
      (failoverLoop fl sel att m (sw + 1) (insert acc failed) st ss')
        \<lparr>tried := acc # tried (failoverLoop fl sel att m (sw + 1) (insert acc failed) st ss')\<rparr>) \<and>
   (sel failed = Selected acc \<and> att sw acc ss = (Forward (UpstreamFailoverError st), ss') \<and>
    m \<le> sw \<longrightarrow>
      failoverLoop fl sel att m sw failed lst ss =
      \<lparr>resp = handleFailoverExhausted fl st ss', switches = sw, failedSet = insert acc failed,
       tried = [acc]\<rparr>) \<and>
   (sel failed = Selected acc \<and> att sw acc ss = (Forward OtherError, ss') \<longrightarrow>
      failoverLoop fl sel att m sw failed lst ss =
      \<lparr>resp = HandledByForwarder, switches = sw, failedSet = failed, tried = [acc]\<rparr>) \<and>
   failed \<subseteq> failedSet (failoverLoop fl sel att m sw failed lst ss) \<and>
   failedSet (failoverLoop fl sel att m sw failed lst ss) \<subseteq>
     failed \<union> set (tried (failoverLoop fl sel att m sw failed lst ss)) \<and>
   (excludesFailed sel \<longrightarrow>
      distinct (tried (failoverLoop fl sel att m sw failed lst ss)) \<and>
      set (tried (failoverLoop fl sel att m sw failed lst ss)) \<inter> failed = {}) \<and>
   (0 \<le> m \<longrightarrow> switches (failoverLoop fl sel att m 0 {} 0 ss) \<le> m \<and>
      int (length (tried (failoverLoop fl sel att m 0 {} 0 ss))) \<le> m + 1) \<and>
   (0 \<le> m \<and> (\<forall>F. \<exists>a. sel F = Selected a) \<and>
    (\<forall>k a s. att k a s = (Forward (UpstreamFailoverError (stat k)), s)) \<longrightarrow>
      resp (failoverLoop fl sel att m 0 {} 0 ss) = handleFailoverExhausted fl (stat m) ss \<and>
      switches (failoverLoop fl sel att m 0 {} 0 ss) = m) \<and>
   switchBudget (NewGatewayHandler None) ''anthropic'' = 10 \<and>
   switchBudget (NewGatewayHandler None) PlatformGemini = 3 \<and>
   (MaxAccountSwitches c \<le> 0 \<longrightarrow> fst (NewGatewayHandler (Some c)) = 10) \<and>
   (MaxAccountSwitchesGemini c \<le> 0 \<longrightarrow> snd (NewGatewayHandler (Some c)) = 3) \<and>
   handleFailoverExhausted fl 429 False =
     ErrorResponse 429 ''rate_limit_error'' ''Upstream rate limit exceeded, please retry later'' \<and>
   handleFailoverExhausted fl 529 False =
     ErrorResponse 503 ''overloaded_error'' ''Upstream service overloaded, please retry later'' \<and>
   (\<forall>s \<in> {401, 403, 500, 502, 503, 504}.
      \<exists>msg. handleFailoverExhausted fl s False = ErrorResponse 502 ''upstream_error'' msg) \<and>
   handleFailoverExhausted True 429 True =
     SSEErrorEvent ''rate_limit_error'' ''Upstream rate limit exceeded, please retry later'' \<and>
   handleFailoverExhausted True 529 True =
     SSEErrorEvent ''overloaded_error'' ''Upstream service overloaded, please retry later'' \<and>
   (\<forall>s \<in> {401, 403, 500, 502, 503, 504}.
      \<exists>msg. handleFailoverExhausted True s True = SSEErrorEvent ''upstream_error'' msg) \<and>
   handleFailoverExhausted False st True = NothingWritten"
proof -
  let ?r = "failoverLoop fl sel att m sw failed lst ss"
  have retry: "sel failed = Selected acc \<and>
      att sw acc ss = (Forward (UpstreamFailoverError st), ss') \<and> sw < m \<longrightarrow>
      failoverLoop fl sel att m sw failed lst ss =
      (failoverLoop fl sel att m (sw + 1) (insert acc failed) st ss')
        \<lparr>tried := acc # tried (failoverLoop fl sel att m (sw + 1) (insert acc failed) st ss')\<rparr>"
    using failoverLoop_retry by blast
  have exhausted: "sel failed = Selected acc \<and>
      att sw acc ss = (Forward (UpstreamFailoverError st), ss') \<and> m \<le> sw \<longrightarrow>
      failoverLoop fl sel att m sw failed lst ss =
      \<lparr>resp = handleFailoverExhausted fl st ss', switches = sw, failedSet = insert acc failed,
       tried = [acc]\<rparr>"
    using failoverLoop_exhausted by blast
  have terminal: "sel failed = Selected acc \<and> att sw acc ss = (Forward OtherError, ss') \<longrightarrow>
      failoverLoop fl sel att m sw failed lst ss =
      \<lparr>resp = HandledByForwarder, switches = sw, failedSet = failed, tried = [acc]\<rparr>"
    using failoverLoop_terminal by blast
  have grows: "failed \<subseteq> failedSet ?r" "failedSet ?r \<subseteq> failed \<union> set (tried ?r)"
    and excl: "excludesFailed sel \<longrightarrow> distinct (tried ?r) \<and> set (tried ?r) \<inter> failed = {}"
    using failoverLoop_inv [of fl sel att m sw failed lst ss] by blast+
  have budget: "0 \<le> m \<longrightarrow> switches (failoverLoop fl sel att m 0 {} 0 ss) \<le> m \<and>
      int (length (tried (failoverLoop fl sel att m 0 {} 0 ss))) \<le> m + 1"
    using failoverLoop_inv [of fl sel att m 0 "{}" 0 ss] by (auto simp: max_def split: if_splits)
  have allfail: "0 \<le> m \<and> (\<forall>F. \<exists>a. sel F = Selected a) \<and>
    (\<forall>k a s. att k a s = (Forward (UpstreamFailoverError (stat k)), s)) \<longrightarrow>
      resp (failoverLoop fl sel att m 0 {} 0 ss) = handleFailoverExhausted fl (stat m) ss \<and>
      switches (failoverLoop fl sel att m 0 {} 0 ss) = m"
    using failoverLoop_all_fail [of sel att stat 0 m fl "{}" 0 ss] by blast
  have defaults: "switchBudget (NewGatewayHandler None) ''anthropic'' = 10"
    "switchBudget (NewGatewayHandler None) PlatformGemini = 3"
    "MaxAccountSwitches c \<le> 0 \<longrightarrow> fst (NewGatewayHandler (Some c)) = 10"
    "MaxAccountSwitchesGemini c \<le> 0 \<longrightarrow> snd (NewGatewayHandler (Some c)) = 3"
    by (simp_all add: NewGatewayHandler_def switchBudget_def PlatformGemini_def)
  have mapping: "handleFailoverExhausted fl 429 False =
     ErrorResponse 429 ''rate_limit_error'' ''Upstream rate limit exceeded, please retry later''"
    "handleFailoverExhausted fl 529 False =
     ErrorResponse 503 ''overloaded_error'' ''Upstream service overloaded, please retry later''"
    "\<forall>s \<in> {401, 403, 500, 502, 503, 504}.
      \<exists>msg. handleFailoverExhausted fl s False = ErrorResponse 502 ''upstream_error'' msg"
    by (simp_all add: handleFailoverExhausted_def mapUpstreamError_def
        handleStreamingAwareError_def errorResponse_def)
  have streaming: "handleFailoverExhausted True 429 True =
     SSEErrorEvent ''rate_limit_error'' ''Upstream rate limit exceeded, please retry later''"
    "handleFailoverExhausted True 529 True =
     SSEErrorEvent ''overloaded_error'' ''Upstream service overloaded, please retry later''"
    "\<forall>s \<in> {401, 403, 500, 502, 503, 504}.
      \<exists>msg. handleFailoverExhausted True s True = SSEErrorEvent ''upstream_error'' msg"
    "handleFailoverExhausted False st True = NothingWritten"
    by (simp_all add: handleFailoverExhausted_def mapUpstreamError_def
        handleStreamingAwareError_def split_def)
  from retry exhausted terminal grows excl budget allfail defaults mapping streaming
  show ?thesis by (intro conjI)
qed

theorem C9_failover_budget_witness:
  "(let sel = (\<lambda>F. if 1 \<notin> F then Selected 1 else if 2 \<notin> F then Selected 2
                     else SelectError ''no available accounts'');
        att = (\<lambda>k a s. if a = 1 then (Forward (UpstreamFailoverError 503), s)
                        else (Forward Forwarded, s))
    in sel {} = Selected 1 \<and> att 0 1 False = (Forward (UpstreamFailoverError 503), False) \<and>
       (0::int) < 10 \<and> excludesFailed sel \<and>
       failoverLoop True sel att 10 0 {} 0 False =
         \<lparr>resp = Served 2, switches = 1, failedSet = {1}, tried = [1, 2]\<rparr> \<and>
       distinct (tried (failoverLoop True sel att 10 0 {} 0 False))) \<and>
   (let sel = (\<lambda>F. Selected 7); att = (\<lambda>k a s. (Forward (UpstreamFailoverError 529), s))
    in (0::int) \<le> 3 \<and> (\<forall>F. \<exists>a. sel F = Selected a) \<and>
       resp (failoverLoop True sel att 3 0 {} 0 False) = handleFailoverExhausted True 529 False \<and>
       switches (failoverLoop True sel att 3 0 {} 0 False) = 3) \<and>
   (let sel = (\<lambda>F. Selected 7); att = (\<lambda>k a s. (Forward (UpstreamFailoverError 429), True))
    in sel {} = Selected 7 \<and> att 0 7 False = (Forward (UpstreamFailoverError 429), True) \<and>
       (0::int) \<le> 0 \<and>
       failoverLoop True sel att 0 0 {} 0 False =
         \<lparr>resp = SSEErrorEvent ''rate_limit_error''
                  ''Upstream rate limit exceeded, please retry later'',
          switches = 0, failedSet = {7}, tried = [7]\<rparr>) \<and>
   (let sel = (\<lambda>F. Selected 7); att = (\<lambda>k a s. (Forward OtherError, s))
    in sel {} = Selected 7 \<and> att 0 7 False = (Forward OtherError, False) \<and>
       failoverLoop True sel att 10 0 {} 0 False =
         \<lparr>resp = HandledByForwarder, switches = 0, failedSet = {}, tried = [7]\<rparr>)"
proof -
  let ?sel = "\<lambda>F::int set. if 1 \<notin> F then Selected 1 else if 2 \<notin> F then Selected 2
                     else SelectError ''no available accounts''"
  let ?att = "\<lambda>(k::int) (a::int) (s::bool). if a = 1 then (Forward (UpstreamFailoverError 503), s)
                        else (Forward Forwarded, s)"
  have s0: "?sel {} = Selected 1" by simp
  have a0: "?att 0 1 False = (Forward (UpstreamFailoverError 503), False)" by simp
  have ex: "excludesFailed ?sel" by (auto simp: excludesFailed_def split: if_splits)
  have nxt: "failoverLoop True ?sel ?att 10 1 {1} 503 False =
      \<lparr>resp = Served 2, switches = 1, failedSet = {1}, tried = [2]\<rparr>"
    by (subst failoverLoop.simps) simp
  have step: "failoverLoop True ?sel ?att 10 0 {} 0 False =
      \<lparr>resp = Served 2, switches = 1, failedSet = {1}, tried = [1, 2]\<rparr>"
    using C9_failover_budget [where sel = ?sel and failed = "{}" and acc = 1 and att = ?att and sw = 0
        and ss = False and st = 503 and ss' = False and m = 10 and lst = 0 and fl = True,
        THEN conjunct1] s0 a0
    by (simp add: nxt)
  have dist: "distinct (tried (failoverLoop True ?sel ?att 10 0 {} 0 False))"
    using C9_failover_budget [where sel = ?sel and failed = "{}" and att = ?att and sw = 0
        and ss = False and m = 10 and lst = 0 and fl = True,
        THEN conjunct2, THEN conjunct2, THEN conjunct2, THEN conjunct2, THEN conjunct2,
        THEN conjunct1] ex
    by simp
  let ?sel2 = "\<lambda>F::int set. Selected (7::int)"
  let ?att2 = "\<lambda>(k::int) (a::int) (s::bool). (Forward (UpstreamFailoverError 529), s)"
  have s2: "\<forall>F. \<exists>a. ?sel2 F = Selected a" by blast
  have a2: "\<forall>k a s. ?att2 k a s = (Forward (UpstreamFailoverError ((\<lambda>k. 529) k)), s)" by blast
  have all: "resp (failoverLoop True ?sel2 ?att2 3 0 {} 0 False) = handleFailoverExhausted True ((\<lambda>k. 529) (3::int)) False \<and>
      switches (failoverLoop True ?sel2 ?att2 3 0 {} 0 False) = 3"
    using C9_failover_budget [where sel = ?sel2 and att = ?att2 and ss = False and m = 3
        and fl = True and stat = "\<lambda>k. 529",
        THEN conjunct2, THEN conjunct2, THEN conjunct2, THEN conjunct2, THEN conjunct2,
        THEN conjunct2, THEN conjunct2, THEN conjunct1] s2 a2
    by simp
  let ?att3 = "\<lambda>(k::int) (a::int) (s::bool). (Forward (UpstreamFailoverError 429), True)"
  have exh: "failoverLoop True ?sel2 ?att3 0 0 {} 0 False =
         \<lparr>resp = SSEErrorEvent ''rate_limit_error''
                  ''Upstream rate limit exceeded, please retry later'',
          switches = 0, failedSet = {7}, tried = [7]\<rparr>"
    using C9_failover_budget [where sel = ?sel2 and failed = "{}" and acc = 7 and att = ?att3
        and sw = 0 and ss = False and st = 429 and ss' = True and m = 0 and lst = 0 and fl = True,
        THEN conjunct2, THEN conjunct1]
      C9_failover_budget [where fl = True, THEN conjunct2, THEN conjunct2, THEN conjunct2,
        THEN conjunct2, THEN conjunct2, THEN conjunct2, THEN conjunct2, THEN conjunct2,
        THEN conjunct2, THEN conjunct2, THEN conjunct2, THEN conjunct2, THEN conjunct2,
        THEN conjunct2, THEN conjunct2, THEN conjunct1]
    by simp
  let ?att4 = "\<lambda>(k::int) (a::int) (s::bool). (Forward OtherError, s)"
  have other: "failoverLoop True ?sel2 ?att4 10 0 {} 0 False =
         \<lparr>resp = HandledByForwarder, switches = 0, failedSet = {}, tried = [7]\<rparr>"
    using C9_failover_budget [where sel = ?sel2 and failed = "{}" and acc = 7 and att = ?att4
        and sw = 0 and ss = False and ss' = False and m = 10 and lst = 0 and fl = True,
        THEN conjunct2, THEN conjunct2, THEN conjunct1]
    by simp
  show ?thesis
    unfolding Let_def using s0 a0 ex step dist s2 all exh other by simp
qed



end
